theory Spec2Isabelle
  imports Main "HOL-Library.Sublist" "HOL-Library.Multiset"
begin

section \<open>The zsys dataset model of \<open>internal/zfs/helpers.go\<close>\<close>

text \<open>
  The Go file keeps an in-memory mirror of a ZFS dataset hierarchy. This theory embeds
  its functions as HOL functions: Go's multiple return values are tuples, an \<open>error\<close>
  result is an \<open>error option\<close> (\<open>None\<close> is \<open>nil\<close>), a \<open>panic\<close> is an error value of
  its own, and what a method mutates is returned as the new value of the receiver.
\<close>

subsection \<open>Strings: the functions of Go's \<open>strings\<close> package that the file calls\<close>

text \<open>
  \<open>strings.LastIndex(s, sep)\<close> is only called with a one-byte separator (\<open>":"\<close> and
  \<open>"@"\<close>). \<open>None\<close> stands for Go's \<open>-1\<close>.
\<close>

fun LastIndex :: "string \<Rightarrow> char \<Rightarrow> nat option" where
  "LastIndex [] c = None"
| "LastIndex (x # xs) c =
     (case LastIndex xs c of
        Some i \<Rightarrow> Some (Suc i)
      | None \<Rightarrow> (if x = c then Some 0 else None))"

definition TrimPrefix :: "string \<Rightarrow> string \<Rightarrow> string" where
  "TrimPrefix s p = (if prefix p s then drop (length p) s else s)"

subsection \<open>Property names and errors\<close>

text \<open>
  Modelled from the spec: the property-name constants (\<open>BootfsProp\<close>, \<open>LastUsedProp\<close>,
  \<open>CanmountProp\<close>, ...) are declared outside this file. The spec lists them as a closed
  set of recognised names, and Go rejects a \<open>switch\<close> with two equal constant cases, so
  they are pairwise distinct; \<open>OtherProp\<close> is any other string.
\<close>

datatype propName =
    CanmountProp | SnapshotCanmountProp
  | MountPointProp | SnapshotMountpointProp
  | BootfsProp | LastUsedProp | BootfsDatasetsProp | LastBootedKernelProp
  | OtherProp string

text \<open>
  One constructor per error the file builds with \<open>fmt.Errorf\<close> or \<open>panic\<close>, carrying the
  arguments of the format string; \<open>BackendError\<close> is an error handed back by go-libzfs,
  \<open>ErrSyntax\<close> and \<open>ErrRange\<close> are the two errors of \<open>strconv.Atoi\<close>,
  \<open>DatasetNotFound\<close> the error of \<open>findDatasetByName\<close>.
\<close>

datatype error =
    BackendError string
  | ErrSyntax
  | ErrRange
  | CantGetPool error
  | CantGetProperty propName error
  | NotAnInt propName error
  | SnapshotIntegrity string string string
  | DatasetNotFound string
  | CannotFindBaseSnapshot string error
  | CannotFindOldSnapshot string string
  | PanicUnsupportedProperty propName
  | PanicNotAnInt propName error

subsection \<open>The go-libzfs handle\<close>

datatype Prop =
    DatasetPropType
  | DatasetPropName | DatasetPropMountpoint | DatasetPropCanmount
  | DatasetPropMounted | DatasetPropOrigin | DatasetPropCreation

text \<open>
  \<open>libzfs.Prop\<close> is an integer enumeration whose zero value is \<open>DatasetPropType\<close>; the
  file compares against that zero value (\<open>var empty libzfs.Prop\<close>) to tell a native
  property from a user property.
\<close>

definition empty :: Prop where
  "empty = DatasetPropType"

datatype DatasetType =
  DatasetTypeFilesystem | DatasetTypeSnapshot | DatasetTypeVolume | DatasetTypeBookmark

record Property =
  Value :: string
  Source :: string

text \<open>
  The handle is opaque to the file, which only reads its property cache and calls its
  methods. The record holds the cache (\<open>Properties\<close>, a Go map: a missing key reads as
  the zero \<open>Property\<close>) and, for each method, what the backend answers:
  \<open>GetUserProperty\<close> a property or an error, \<open>PoolAltroot\<close> the value of
  \<open>Pool().Properties[PoolPropAltroot]\<close> or the error of \<open>Pool()\<close>, \<open>SetProperty\<close> and
  \<open>SetUserProperty\<close> the error of the write (\<open>None\<close> when it succeeds).
\<close>

record libzfs_Dataset =
  Type :: DatasetType
  Properties :: "Prop \<Rightarrow> Property"
  GetUserProperty :: "propName \<Rightarrow> error + Property"
  PoolAltroot :: "error + string"
  SetProperty :: "Prop \<Rightarrow> string \<Rightarrow> error option"
  SetUserProperty :: "propName \<Rightarrow> string \<Rightarrow> error option"

definition libzfs_IsSnapshot :: "libzfs_Dataset \<Rightarrow> bool" where
  "libzfs_IsSnapshot dz = (Type dz = DatasetTypeSnapshot)"

subsection \<open>\<open>getUserPropertyFromSys\<close>\<close>

datatype logEntry = Debugf | Warningf

text \<open>
  The result is Go's triple \<open>(value, source, err)\<close>, preceded by the log lines the call
  writes (their level only). The bare \<open>return\<close> of the malformed-value branch returns
  the named results as they are: two empty strings and the \<open>nil\<close> left in \<open>err\<close>.
\<close>

definition getUserPropertyFromSys ::
  "propName \<Rightarrow> libzfs_Dataset \<Rightarrow> logEntry list \<times> string \<times> string \<times> error option" where
  "getUserPropertyFromSys prop dz =
     (case GetUserProperty dz prop of
        Inl err \<Rightarrow> ([], [], [], Some (CantGetProperty prop err))
      | Inr p \<Rightarrow>
          if Value p = ''-'' \<and> (Source p = ''-'' \<or> Source p = ''none'') then ([], [], [], None)
          else if libzfs_IsSnapshot dz \<and> Source p \<noteq> ''local'' then ([], [], [], None)
          else if libzfs_IsSnapshot dz then
            (case LastIndex (Value p) CHR '':'' of
               None \<Rightarrow> ([Debugf, Warningf], [], [], None)
             | Some idx \<Rightarrow>
                 let value = take idx (Value p); source = drop (idx + 1) (Value p) in
                 ([Debugf], value,
                  (if source \<noteq> ''local'' \<and> source \<noteq> ''default'' then ''inherited'' else source),
                  None))
          else
            let value = Value p; source = Source p in
            ([Debugf], value,
             (if source \<noteq> ''local'' \<and> source \<noteq> ''default'' then ''inherited'' else source),
             None))"

subsection \<open>\<open>strconv.Atoi\<close> and \<open>strconv.Itoa\<close>\<close>

text \<open>
  Go's \<open>int\<close> is 64 bits wide here. \<open>Atoi\<close> accepts an optional sign followed by at
  least one decimal digit, and reports a range error for a number outside
  \<open>[-2^63, 2^63 - 1]\<close>; anything else is a syntax error.
\<close>

definition isDigit :: "char \<Rightarrow> bool" where
  "isDigit c = (48 \<le> (of_char c :: nat) \<and> (of_char c :: nat) \<le> 57)"

definition digitVal :: "char \<Rightarrow> nat" where
  "digitVal c = of_char c - 48"

definition digitChar :: "nat \<Rightarrow> char" where
  "digitChar k = ''0123456789'' ! k"

fun parseDigits :: "nat \<Rightarrow> string \<Rightarrow> nat" where
  "parseDigits n [] = n"
| "parseDigits n (ch # s) = parseDigits (n * 10 + digitVal ch) s"

definition Atoi :: "string \<Rightarrow> error + int" where
  "Atoi s0 =
     (let neg = (s0 \<noteq> [] \<and> hd s0 = CHR ''-'');
          s = (if s0 \<noteq> [] \<and> (hd s0 = CHR ''-'' \<or> hd s0 = CHR ''+'') then tl s0 else s0)
      in if s = [] \<or> \<not> list_all isDigit s then Inl ErrSyntax
         else let n = int (parseDigits 0 s); v = (if neg then - n else n)
              in if v < - (2 ^ 63) \<or> 2 ^ 63 - 1 < v then Inl ErrRange else Inr v)"

fun natDigits :: "nat \<Rightarrow> string" where
  "natDigits n = (if n < 10 then [digitChar n] else natDigits (n div 10) @ [digitChar (n mod 10)])"

definition Itoa :: "int \<Rightarrow> string" where
  "Itoa i = (if i < 0 then CHR ''-'' # natDigits (nat (- i)) else natDigits (nat i))"

subsection \<open>The data model\<close>

text \<open>
  Modelled from the spec: the struct types \<open>Dataset\<close>, \<open>DatasetProp\<close> and
  \<open>datasetSources\<close> are declared outside this file. Their fields are the ones the file
  reads and writes, which are the ones of the data model of the spec: the properties,
  one provenance for each inheritable property, the name, the snapshot flag, the backend
  handle and the children.

  \<open>datasetSources\<close> has the same field names as \<open>DatasetProp\<close> in Go; here its fields
  carry the prefix \<open>src\<close>. Go embeds \<open>DatasetProp\<close> in \<open>Dataset\<close>, so that
  \<open>d.Mountpoint\<close> is a field of \<open>d\<close>: the record of a dataset's own fields extends
  \<open>DatasetProp\<close>. A dataset owns its children, so the tree is a datatype; \<open>self\<close>
  gives the dataset's own fields.
\<close>

record datasetSources =
  srcMountpoint :: string
  srcCanMount :: string
  srcBootFS :: string
  srcLastUsed :: string
  srcLastBootedKernel :: string
  srcBootfsDatasets :: string

record DatasetProp =
  Mountpoint :: string
  CanMount :: string
  Mounted :: bool
  BootFS :: bool
  LastUsed :: int
  LastBootedKernel :: string
  BootfsDatasets :: string
  Origin :: string
  sources :: datasetSources

record DatasetFields = DatasetProp +
  Name :: string
  IsSnapshot :: bool
  dZFS :: libzfs_Dataset

datatype Dataset = Dataset (self: DatasetFields) (children: "Dataset list")

subsection \<open>\<open>RefreshProperties\<close>\<close>

text \<open>
  The method fills \<open>d.DatasetProp\<close> in its last statement, so on an error the dataset
  is returned as it was. Its log lines are not part of the model, and those of
  \<open>getUserPropertyFromSys\<close> are dropped here.
\<close>

definition simplifyMountpointSource :: "string \<Rightarrow> string" where
  "simplifyMountpointSource sourceMountPoint =
     (if sourceMountPoint = ''local'' then ''local''
      else if sourceMountPoint = ''default'' then []
      else ''inherited'')"

definition simplifyCanMountSource :: "string \<Rightarrow> string" where
  "simplifyCanMountSource sourceCanMount =
     (if sourceCanMount = ''local'' then ''local''
      else if sourceCanMount = ''default'' then []
      else [])"

definition refreshMountProps ::
  "DatasetFields \<Rightarrow> libzfs_Dataset \<Rightarrow> error + (bool \<times> string \<times> string \<times> string \<times> string)" where
  "refreshMountProps d dz =
     (if IsSnapshot d then
        (case snd (getUserPropertyFromSys SnapshotMountpointProp dz) of
           (mountpoint, sourceMountPoint, _) \<Rightarrow>
         case snd (getUserPropertyFromSys SnapshotCanmountProp dz) of
           (canMount, sourceCanMount, _) \<Rightarrow>
         Inr (False, mountpoint, canMount, sourceMountPoint, sourceCanMount))
      else
        (let mp = Properties dz DatasetPropMountpoint in
         case PoolAltroot dz of
           Inl err \<Rightarrow> Inl (CantGetPool err)
         | Inr poolRoot \<Rightarrow>
             let mountpoint = TrimPrefix (Value mp) poolRoot;
                 mountpoint = (if mountpoint = [] then ''/'' else mountpoint);
                 cm = Properties dz DatasetPropCanmount;
                 mountedp = Properties dz DatasetPropMounted
             in Inr (Value mountedp = ''yes'', mountpoint, Value cm, Source mp, Source cm)))"

definition RefreshProperties :: "DatasetFields \<Rightarrow> libzfs_Dataset \<Rightarrow> error option \<times> DatasetFields" where
  "RefreshProperties d dz =
     (case refreshMountProps d dz of
        Inl err \<Rightarrow> (Some err, d)
      | Inr (mounted, mountpoint, canMount, sourceMountPoint, sourceCanMount) \<Rightarrow>
     let srcs_Mountpoint = simplifyMountpointSource sourceMountPoint;
         srcs_CanMount = simplifyCanMountSource sourceCanMount;
         origin = Value (Properties dz DatasetPropOrigin)
     in
     case snd (getUserPropertyFromSys BootfsProp dz) of
       (_, _, Some err) \<Rightarrow> (Some err, d)
     | (bfs, srcBootFS', None) \<Rightarrow>
     case (if \<not> IsSnapshot d then snd (getUserPropertyFromSys LastUsedProp dz)
           else (Value (Properties dz DatasetPropCreation), [], None)) of
       (_, _, Some err) \<Rightarrow> (Some err, d)
     | (lu, srcLastUsed', None) \<Rightarrow>
     case Atoi (if lu = [] then ''0'' else lu) of
       Inl err \<Rightarrow> (Some (NotAnInt LastUsedProp err), d)
     | Inr lastUsed \<Rightarrow>
     case snd (getUserPropertyFromSys LastBootedKernelProp dz) of
       (_, _, Some err) \<Rightarrow> (Some err, d)
     | (lastBootedKernel, srcLastBootedKernel', None) \<Rightarrow>
     case snd (getUserPropertyFromSys BootfsDatasetsProp dz) of
       (_, _, Some err) \<Rightarrow> (Some err, d)
     | (bootfsDatasets, srcBootfsDatasets', None) \<Rightarrow>
     (None,
      d\<lparr>Mountpoint := mountpoint,
        CanMount := canMount,
        Mounted := mounted,
        BootFS := (bfs = ''yes''),
        LastUsed := lastUsed,
        LastBootedKernel := lastBootedKernel,
        BootfsDatasets := bootfsDatasets,
        Origin := origin,
        sources := \<lparr>srcMountpoint = srcs_Mountpoint,
                     srcCanMount = srcs_CanMount,
                     srcBootFS = srcBootFS',
                     srcLastUsed = srcLastUsed',
                     srcLastBootedKernel = srcLastBootedKernel',
                     srcBootfsDatasets = srcBootfsDatasets'\<rparr>\<rparr>))"

subsection \<open>\<open>splitSnapshotName\<close>\<close>

definition splitSnapshotName :: "string \<Rightarrow> string \<times> string" where
  "splitSnapshotName name =
     (case LastIndex name CHR ''@'' of
        None \<Rightarrow> (name, [])
      | Some i \<Rightarrow> (take i name, drop (i + 1) name))"

subsection \<open>\<open>checkSnapshotHierarchyIntegrity\<close>\<close>

text \<open>
  The first loop of the method, which looks for a child called \<open>d.Name@snapshotName\<close>
  and stops at the first one.
\<close>

fun hasChildNamed :: "Dataset list \<Rightarrow> string \<Rightarrow> bool" where
  "hasChildNamed [] name = False"
| "hasChildNamed (cd # cds) name = (if Name (self cd) = name then True else hasChildNamed cds name)"

text \<open>
  The method and its second loop, which calls the method on every child that is not a
  snapshot and returns the first error.
\<close>

fun checkSnapshotHierarchyIntegrity :: "Dataset \<Rightarrow> string \<Rightarrow> bool \<Rightarrow> error option"
  and checkChildren :: "Dataset list \<Rightarrow> string \<Rightarrow> bool \<Rightarrow> error option" where
  "checkSnapshotHierarchyIntegrity (Dataset d cs) snapshotName snapshotOnParent =
     (if hasChildNamed cs (Name d @ ''@'' @ snapshotName) \<and> \<not> snapshotOnParent
      then Some (SnapshotIntegrity (Name d) snapshotName (Name d @ ''@'' @ snapshotName))
      else checkChildren cs snapshotName (hasChildNamed cs (Name d @ ''@'' @ snapshotName)))"
| "checkChildren [] snapshotName found = None"
| "checkChildren (cd # cds) snapshotName found =
     (if IsSnapshot (self cd) then checkChildren cds snapshotName found
      else case checkSnapshotHierarchyIntegrity cd snapshotName found of
             Some err \<Rightarrow> Some err
           | None \<Rightarrow> checkChildren cds snapshotName found)"

text \<open>Whether a dataset holds the snapshot \<open>d.Name@snapshotName\<close> among its children.\<close>

definition hasSnapshot :: "Dataset \<Rightarrow> string \<Rightarrow> bool" where
  "hasSnapshot d snapshotName =
     hasChildNamed (children d) (Name (self d) @ ''@'' @ snapshotName)"

text \<open>A dataset and everything below it, parents first.\<close>

fun subtree :: "Dataset \<Rightarrow> Dataset list" where
  "subtree (Dataset d cs) = Dataset d cs # concat (map subtree cs)"

text \<open>
  The rule of the check in the words of the spec, without the early return: every
  dataset that holds \<open>dataset@snapshotName\<close> while it is flagged as not expected to,
  parents first and children in their order. The flag of the root is the seed, the flag
  of every other dataset says whether its parent holds the snapshot, and snapshots are
  not visited.
\<close>

fun violations :: "string \<Rightarrow> bool \<Rightarrow> Dataset \<Rightarrow> Dataset list" where
  "violations snapshotName snapshotOnParent (Dataset d cs) =
     (if hasChildNamed cs (Name d @ ''@'' @ snapshotName) \<and> \<not> snapshotOnParent
      then [Dataset d cs] else [])
     @ concat (map (\<lambda>c. if IsSnapshot (self c) then []
                          else violations snapshotName
                                 (hasChildNamed cs (Name d @ ''@'' @ snapshotName)) c) cs)"

definition integrityError :: "string \<Rightarrow> Dataset list \<Rightarrow> error option" where
  "integrityError snapshotName vs =
     (case vs of
        [] \<Rightarrow> None
      | x # _ \<Rightarrow> Some (SnapshotIntegrity (Name (self x)) snapshotName
                          (Name (self x) @ ''@'' @ snapshotName)))"

subsection \<open>\<open>filepath.Join\<close>\<close>

text \<open>
  \<open>filepath.Clean\<close> by its documented rules, on the elements between slashes: empty
  elements and \<open>.\<close> go away, \<open>..\<close> removes the element before it when that is not
  itself \<open>..\<close>, is dropped at the root of a rooted path and is kept otherwise; the
  empty result is \<open>.\<close>. \<open>filepath.Join\<close> skips leading empty elements, joins the rest
  with slashes and cleans the result.
\<close>

fun splitOn :: "char \<Rightarrow> string \<Rightarrow> string list" where
  "splitOn c [] = [[]]"
| "splitOn c (x # xs) =
     (if x = c then [] # splitOn c xs
      else case splitOn c xs of
             w # ws \<Rightarrow> (x # w) # ws
           | [] \<Rightarrow> [[x]])"

fun joinWith :: "string \<Rightarrow> string list \<Rightarrow> string" where
  "joinWith sep [] = []"
| "joinWith sep [e] = e"
| "joinWith sep (e # es) = e @ sep @ joinWith sep es"

definition cleanStep :: "bool \<Rightarrow> string list \<Rightarrow> string \<Rightarrow> string list" where
  "cleanStep rooted out e =
     (if e = [] \<or> e = ''.'' then out
      else if e = ''..'' then
        (if out \<noteq> [] \<and> last out \<noteq> ''..'' then butlast out
         else if rooted then out
         else out @ [''..''])
      else out @ [e])"

definition Clean :: "string \<Rightarrow> string" where
  "Clean path =
     (if path = [] then ''.''
      else let rooted = (hd path = CHR ''/'');
               out = foldl (cleanStep rooted) [] (splitOn CHR ''/'' path)
           in if rooted then CHR ''/'' # joinWith ''/'' out
              else if out = [] then ''.''
              else joinWith ''/'' out)"

definition Join :: "string list \<Rightarrow> string" where
  "Join elem =
     (case dropWhile (\<lambda>e. e = []) elem of
        [] \<Rightarrow> []
      | es \<Rightarrow> Clean (joinWith ''/'' es))"

subsection \<open>\<open>stringToProp\<close>\<close>

text \<open>
  \<open>stringToProp\<close> returns two pointers, to the field that holds the value and to the
  field that holds its provenance. A pointer is the name of the field it points to; for
  bootfs and last-used it points to a fresh local string, which the pointer carries.
  Writing through such a pointer leaves the dataset as it is.
\<close>

datatype valuePtr =
  PtrCanMount | PtrMountpoint | PtrBootfsDatasets | PtrLastBootedKernel | PtrLocal string

datatype sourcePtr =
  PtrSrcCanMount | PtrSrcMountpoint | PtrSrcBootFS | PtrSrcLastUsed
  | PtrSrcBootfsDatasets | PtrSrcLastBootedKernel

fun deref :: "valuePtr \<Rightarrow> DatasetFields \<Rightarrow> string" where
  "deref PtrCanMount d = CanMount d"
| "deref PtrMountpoint d = Mountpoint d"
| "deref PtrBootfsDatasets d = BootfsDatasets d"
| "deref PtrLastBootedKernel d = LastBootedKernel d"
| "deref (PtrLocal s) d = s"

fun assign :: "valuePtr \<Rightarrow> string \<Rightarrow> DatasetFields \<Rightarrow> DatasetFields" where
  "assign PtrCanMount v d = d\<lparr>CanMount := v\<rparr>"
| "assign PtrMountpoint v d = d\<lparr>Mountpoint := v\<rparr>"
| "assign PtrBootfsDatasets v d = d\<lparr>BootfsDatasets := v\<rparr>"
| "assign PtrLastBootedKernel v d = d\<lparr>LastBootedKernel := v\<rparr>"
| "assign (PtrLocal s) v d = d"

fun derefSrc :: "sourcePtr \<Rightarrow> DatasetFields \<Rightarrow> string" where
  "derefSrc PtrSrcCanMount d = srcCanMount (sources d)"
| "derefSrc PtrSrcMountpoint d = srcMountpoint (sources d)"
| "derefSrc PtrSrcBootFS d = srcBootFS (sources d)"
| "derefSrc PtrSrcLastUsed d = srcLastUsed (sources d)"
| "derefSrc PtrSrcBootfsDatasets d = srcBootfsDatasets (sources d)"
| "derefSrc PtrSrcLastBootedKernel d = srcLastBootedKernel (sources d)"

fun assignSrc :: "sourcePtr \<Rightarrow> string \<Rightarrow> DatasetFields \<Rightarrow> DatasetFields" where
  "assignSrc PtrSrcCanMount s d = d\<lparr>sources := (sources d)\<lparr>srcCanMount := s\<rparr>\<rparr>"
| "assignSrc PtrSrcMountpoint s d = d\<lparr>sources := (sources d)\<lparr>srcMountpoint := s\<rparr>\<rparr>"
| "assignSrc PtrSrcBootFS s d = d\<lparr>sources := (sources d)\<lparr>srcBootFS := s\<rparr>\<rparr>"
| "assignSrc PtrSrcLastUsed s d = d\<lparr>sources := (sources d)\<lparr>srcLastUsed := s\<rparr>\<rparr>"
| "assignSrc PtrSrcBootfsDatasets s d = d\<lparr>sources := (sources d)\<lparr>srcBootfsDatasets := s\<rparr>\<rparr>"
| "assignSrc PtrSrcLastBootedKernel s d = d\<lparr>sources := (sources d)\<lparr>srcLastBootedKernel := s\<rparr>\<rparr>"

fun stringToProp ::
  "DatasetFields \<Rightarrow> propName \<Rightarrow> error + (Prop \<times> propName \<times> valuePtr \<times> sourcePtr)" where
  "stringToProp d CanmountProp =
     (if \<not> IsSnapshot d then Inr (DatasetPropCanmount, CanmountProp, PtrCanMount, PtrSrcCanMount)
      else Inr (empty, SnapshotCanmountProp, PtrCanMount, PtrSrcCanMount))"
| "stringToProp d SnapshotCanmountProp =
     Inr (empty, SnapshotCanmountProp, PtrCanMount, PtrSrcCanMount)"
| "stringToProp d MountPointProp =
     (if \<not> IsSnapshot d then Inr (DatasetPropMountpoint, MountPointProp, PtrMountpoint, PtrSrcMountpoint)
      else Inr (empty, SnapshotMountpointProp, PtrMountpoint, PtrSrcMountpoint))"
| "stringToProp d SnapshotMountpointProp =
     Inr (empty, SnapshotMountpointProp, PtrMountpoint, PtrSrcMountpoint)"
| "stringToProp d BootfsProp =
     Inr (empty, BootfsProp, PtrLocal (if \<not> BootFS d then ''no'' else ''yes''), PtrSrcBootFS)"
| "stringToProp d LastUsedProp =
     Inr (empty, LastUsedProp, PtrLocal (Itoa (LastUsed d)), PtrSrcLastUsed)"
| "stringToProp d BootfsDatasetsProp =
     Inr (empty, BootfsDatasetsProp, PtrBootfsDatasets, PtrSrcBootfsDatasets)"
| "stringToProp d LastBootedKernelProp =
     Inr (empty, LastBootedKernelProp, PtrLastBootedKernel, PtrSrcLastBootedKernel)"
| "stringToProp d (OtherProp n) = Inl (PanicUnsupportedProperty (OtherProp n))"

definition getPropertyFromName :: "DatasetFields \<Rightarrow> propName \<Rightarrow> error + (string \<times> string)" where
  "getPropertyFromName d name =
     (case stringToProp d name of
        Inl e \<Rightarrow> Inl e
      | Inr (_, _, v, s) \<Rightarrow> Inr (deref v d, derefSrc s d))"

subsection \<open>\<open>setProperty\<close>\<close>

text \<open>
  The write to the backend: the native setter for a native property, the user-property
  setter otherwise, with \<open>value:source\<close> on a snapshot.
\<close>

definition writeProperty :: "DatasetFields \<Rightarrow> Prop \<Rightarrow> propName \<Rightarrow> string \<Rightarrow> string \<Rightarrow> error option" where
  "writeProperty d np up value source =
     (if np \<noteq> empty then SetProperty (dZFS d) np value
      else SetUserProperty (dZFS d) up (if IsSnapshot d then value @ '':'' @ source else value))"

text \<open>
  The first \<open>switch\<close>, which refreshes the dataset itself. It returns the dataset and
  \<open>oldMountPoint\<close>. In the last-used case the string that is parsed is \<open>*destV\<close>, the
  local string that \<open>stringToProp\<close> made from the current \<open>LastUsed\<close>, unless \<open>value\<close>
  is empty.
\<close>

definition refreshLocal ::
  "DatasetFields \<Rightarrow> propName \<Rightarrow> string \<Rightarrow> valuePtr \<Rightarrow> error + (DatasetFields \<times> string)" where
  "refreshLocal d name value destV =
     (if name = BootfsProp then Inr (d\<lparr>BootFS := (value = ''yes'')\<rparr>, [])
      else if name = LastUsedProp then
        (case Atoi (if value = [] then ''0'' else deref destV d) of
           Inl err \<Rightarrow> Inl (NotAnInt LastUsedProp err)
         | Inr lastUsed \<Rightarrow> Inr (d\<lparr>LastUsed := lastUsed\<rparr>, []))
      else if name = MountPointProp then Inr (assign destV value d, deref destV d)
      else Inr (assign destV value d, []))"

text \<open>
  The body of the consumer loop, for one child \<open>c\<close> received from the channel: the
  refresh of the cached native property, the second \<open>switch\<close>, and the provenance.
\<close>

definition refreshChild ::
  "propName \<Rightarrow> string \<Rightarrow> string \<Rightarrow> DatasetFields \<Rightarrow> error + DatasetFields" where
  "refreshChild name value oldMountPoint c =
     (case stringToProp c name of
        Inl e \<Rightarrow> Inl e
      | Inr (np, _, destV, destS) \<Rightarrow>
          let c1 = (if np \<noteq> empty
                    then c\<lparr>dZFS := (dZFS c)\<lparr>Properties := (Properties (dZFS c))
                            (np := \<lparr>Value = value, Source = Source (Properties (dZFS c) np)\<rparr>)\<rparr>\<rparr>
                    else c)
          in if name = BootfsProp then Inr (assignSrc destS ''inherited'' (c1\<lparr>BootFS := (value = ''yes'')\<rparr>))
             else if name = LastUsedProp then
               (case Atoi (if value = [] then ''0'' else value) of
                  Inl err \<Rightarrow> Inl (PanicNotAnInt LastUsedProp err)
                | Inr lastUsed \<Rightarrow> Inr (assignSrc destS ''inherited'' (c1\<lparr>LastUsed := lastUsed\<rparr>)))
             else if name = MountPointProp then
               Inr (assignSrc destS ''inherited''
                      (assign destV (Join [value, TrimPrefix (deref destV c1) oldMountPoint]) c1))
             else Inr (assignSrc destS ''inherited'' (assign destV value c1)))"

text \<open>
  Whether the producer sends child \<open>c\<close> to the channel: it is not a snapshot, and its
  provenance is \<open>inherited\<close>, or empty for a user property.
\<close>

definition inherits :: "propName \<Rightarrow> DatasetFields \<Rightarrow> bool" where
  "inherits name c =
     (case stringToProp c name of
        Inl e \<Rightarrow> False
      | Inr (np, _, _, destS) \<Rightarrow>
          \<not> IsSnapshot c \<and> \<not> (derefSrc destS c \<noteq> ''inherited'' \<and> \<not> (derefSrc destS c = [] \<and> np = empty)))"

text \<open>
  The cascade. The producer \<open>getInheritedChildren\<close> walks the children in order, sends
  each child that inherits and then descends into it; the consumer updates the datasets
  in the order they arrive. The producer reads a dataset's provenance before it sends
  it and the consumer writes only to datasets it has received, so the two run as one
  walk that updates a child and then goes below it. A child that does not inherit is
  left alone with everything below it. The panic of the consumer ends the walk.
\<close>

fun refreshInheritedChildren ::
  "propName \<Rightarrow> string \<Rightarrow> string \<Rightarrow> Dataset list \<Rightarrow> error + Dataset list" where
  "refreshInheritedChildren name value oldMountPoint [] = Inr []"
| "refreshInheritedChildren name value oldMountPoint (Dataset c gcs # cs) =
     (if \<not> inherits name c then
        (case refreshInheritedChildren name value oldMountPoint cs of
           Inl e \<Rightarrow> Inl e
         | Inr cs' \<Rightarrow> Inr (Dataset c gcs # cs'))
      else
        (case refreshChild name value oldMountPoint c of
           Inl e \<Rightarrow> Inl e
         | Inr c' \<Rightarrow>
        (case refreshInheritedChildren name value oldMountPoint gcs of
           Inl e \<Rightarrow> Inl e
         | Inr gcs' \<Rightarrow>
        (case refreshInheritedChildren name value oldMountPoint cs of
           Inl e \<Rightarrow> Inl e
         | Inr cs' \<Rightarrow> Inr (Dataset c' gcs' # cs')))))"

text \<open>
  \<open>setProperty\<close> returns its error and the dataset as the call leaves it. The panics
  (an unsupported name, a last-used value that does not parse in the consumer) happen
  before any child is written, so the dataset returned with them is the one at the
  panic.
\<close>

definition setProperty ::
  "Dataset \<Rightarrow> propName \<Rightarrow> string \<Rightarrow> string \<Rightarrow> error option \<times> Dataset" where
  "setProperty D name value source =
     (case stringToProp (self D) name of
        Inl e \<Rightarrow> (Some e, D)
      | Inr (np, up, destV, destS) \<Rightarrow>
     case writeProperty (self D) np up value source of
        Some err \<Rightarrow> (Some err, D)
      | None \<Rightarrow>
     case refreshLocal (self D) name value destV of
        Inl err \<Rightarrow> (Some err, D)
      | Inr (d1, oldMountPoint) \<Rightarrow>
     let d2 = assignSrc destS source d1 in
     case refreshInheritedChildren name value oldMountPoint (children D) of
        Inl e \<Rightarrow> (Some e, Dataset d2 (children D))
      | Inr cs' \<Rightarrow> (None, Dataset d2 cs'))"

subsection \<open>\<open>inverseOrigin\<close>\<close>

text \<open>
  \<open>inverseOrigin\<close> works on pointers: the snapshot it renames is the object that the
  children slices and the registry point to, and the base snapshot it reads at the end
  may be one of the snapshots it has renamed. So this function is modelled over a store
  of dataset objects. A pointer is a number, the store gives the object at each pointer,
  and an object has the fields of a dataset and the pointers of its children.
\<close>

type_synonym ref = nat

record DatasetObj = DatasetFields +
  childrenRefs :: "ref list"

text \<open>
  Modelled from the spec: the types of the transaction and of its \<open>Zfs\<close> are declared
  outside this file. \<open>inverseOrigin\<close> uses the registry \<open>t.Zfs.allDatasets\<close>, a map from
  names to pointers; \<open>heap\<close> is the store those pointers refer to.
\<close>

record Zfs =
  allDatasets :: "string \<rightharpoonup> ref"
  heap :: "ref \<Rightarrow> DatasetObj"

text \<open>
  Modelled from the spec: \<open>findDatasetByName\<close> is defined outside this file. The spec
  has it resolve a name through the registry and fail with a dataset-not-found error
  when the name is absent.
\<close>

definition findDatasetByName :: "Zfs \<Rightarrow> string \<Rightarrow> error + ref" where
  "findDatasetByName z name =
     (case allDatasets z name of
        None \<Rightarrow> Inl (DatasetNotFound name)
      | Some d \<Rightarrow> Inr d)"

text \<open>The first loop: the snapshots among the children that are not newer than the base.\<close>

fun snapshotsToMigrate :: "(ref \<Rightarrow> DatasetObj) \<Rightarrow> ref \<Rightarrow> ref list \<Rightarrow> ref list" where
  "snapshotsToMigrate h baseSnapshot [] = []"
| "snapshotsToMigrate h baseSnapshot (c # cs) =
     (if \<not> IsSnapshot (h c) then snapshotsToMigrate h baseSnapshot cs
      else if LastUsed (h c) > LastUsed (h baseSnapshot) then snapshotsToMigrate h baseSnapshot cs
      else c # snapshotsToMigrate h baseSnapshot cs)"

text \<open>
  The search \<open>j := -1; for j = range children { if children[j] == s { break } }\<close>:
  \<open>i\<close> is the next index and \<open>j\<close> the value of the loop variable so far. The loop
  assigns every index it visits to \<open>j\<close>.
\<close>

fun findChild :: "ref list \<Rightarrow> ref \<Rightarrow> int \<Rightarrow> int \<Rightarrow> int" where
  "findChild [] s i j = j"
| "findChild (c # cs) s i j = (if c = s then i else findChild cs s (i + 1) i)"

text \<open>The body of the second loop, for the snapshot \<open>s\<close>.\<close>

definition migrateSnapshot :: "Zfs \<Rightarrow> ref \<Rightarrow> ref \<Rightarrow> ref \<Rightarrow> error option \<times> Zfs" where
  "migrateSnapshot z oldOrigDataset newOrigDataset s =
     (let h = heap z;
          oldName = Name (h s);
          n = snd (splitSnapshotName oldName);
          h1 = h(s := (h s)\<lparr>Name := Name (h newOrigDataset) @ ''@'' @ n\<rparr>);
          h2 = h1(newOrigDataset :=
                 (h1 newOrigDataset)\<lparr>childrenRefs := childrenRefs (h1 newOrigDataset) @ [s]\<rparr>);
          cs = childrenRefs (h2 oldOrigDataset);
          j = findChild cs s 0 (- 1)
      in if j < 0
         then (Some (CannotFindOldSnapshot oldName (Name (h2 oldOrigDataset))), z\<lparr>heap := h2\<rparr>)
         else
           let h3 = h2(oldOrigDataset :=
                      (h2 oldOrigDataset)\<lparr>childrenRefs := take (nat j) cs @ drop (nat j + 1) cs\<rparr>)
           in (None, z\<lparr>heap := h3,
                       allDatasets := ((allDatasets z)(Name (h3 s) \<mapsto> s))(oldName := None)\<rparr>))"

fun migrate :: "Zfs \<Rightarrow> ref \<Rightarrow> ref \<Rightarrow> ref list \<Rightarrow> error option \<times> Zfs" where
  "migrate z oldOrigDataset newOrigDataset [] = (None, z)"
| "migrate z oldOrigDataset newOrigDataset (s # rest) =
     (case migrateSnapshot z oldOrigDataset newOrigDataset s of
        (Some err, z') \<Rightarrow> (Some err, z')
      | (None, z') \<Rightarrow> migrate z' oldOrigDataset newOrigDataset rest)"

definition inverseOrigin :: "Zfs \<Rightarrow> ref \<Rightarrow> ref \<Rightarrow> error option \<times> Zfs" where
  "inverseOrigin z oldOrigDataset newOrigDataset =
     (case findDatasetByName z (Origin (heap z newOrigDataset)) of
        Inl err \<Rightarrow> (Some (CannotFindBaseSnapshot (Origin (heap z newOrigDataset)) err), z)
      | Inr baseSnapshot \<Rightarrow>
          (case migrate z oldOrigDataset newOrigDataset
                  (snapshotsToMigrate (heap z) baseSnapshot (childrenRefs (heap z oldOrigDataset))) of
             (Some err, z') \<Rightarrow> (Some err, z')
           | (None, z') \<Rightarrow>
               let h = heap z';
                   h1 = h(oldOrigDataset := (h oldOrigDataset)\<lparr>Origin := Name (h baseSnapshot)\<rparr>);
                   h2 = h1(newOrigDataset := (h1 newOrigDataset)\<lparr>Origin := []\<rparr>)
               in (None, z'\<lparr>heap := h2\<rparr>)))"

text \<open>
  The selection in the words of the spec: the snapshot children whose \<open>lastUsed\<close> is
  less than or equal to that of the base snapshot.
\<close>

definition selected :: "Zfs \<Rightarrow> ref \<Rightarrow> ref \<Rightarrow> ref list" where
  "selected z oldOrigDataset baseSnapshot =
     [c \<leftarrow> childrenRefs (heap z oldOrigDataset).
        IsSnapshot (heap z c) \<and> LastUsed (heap z c) \<le> LastUsed (heap z baseSnapshot)]"

subsection \<open>Examples\<close>

text \<open>
  Backend handles, datasets and trees for the concrete cases below. \<open>newDataset\<close> is
  the struct literal of \<open>newDatasetTree\<close>: a name, the snapshot flag and the handle,
  every other field at its zero value.
\<close>

definition noProperty :: Property where
  "noProperty = \<lparr>Value = ''-'', Source = ''-''\<rparr>"

definition snapshotHandle :: "string \<Rightarrow> libzfs_Dataset" where
  "snapshotHandle packed =
     \<lparr>Type = DatasetTypeSnapshot,
      Properties = (\<lambda>_. \<lparr>Value = [], Source = []\<rparr>),
      GetUserProperty = (\<lambda>_. Inr \<lparr>Value = packed, Source = ''local''\<rparr>),
      PoolAltroot = Inr [],
      SetProperty = (\<lambda>_ _. None),
      SetUserProperty = (\<lambda>_ _. None)\<rparr>"

definition filesystemHandle :: "Property \<Rightarrow> Property \<Rightarrow> libzfs_Dataset" where
  "filesystemHandle mp cm =
     \<lparr>Type = DatasetTypeFilesystem,
      Properties = (\<lambda>p. if p = DatasetPropMountpoint then mp
                         else if p = DatasetPropCanmount then cm
                         else \<lparr>Value = [], Source = []\<rparr>),
      GetUserProperty = (\<lambda>_. Inr noProperty),
      PoolAltroot = Inr [],
      SetProperty = (\<lambda>_ _. None),
      SetUserProperty = (\<lambda>_ _. None)\<rparr>"

definition newDataset :: "string \<Rightarrow> bool \<Rightarrow> libzfs_Dataset \<Rightarrow> DatasetFields" where
  "newDataset name snap dz =
     \<lparr>Mountpoint = [], CanMount = [], Mounted = False, BootFS = False, LastUsed = 0,
      LastBootedKernel = [], BootfsDatasets = [], Origin = [],
      sources = \<lparr>srcMountpoint = [], srcCanMount = [], srcBootFS = [], srcLastUsed = [],
                 srcLastBootedKernel = [], srcBootfsDatasets = []\<rparr>,
      Name = name, IsSnapshot = snap, dZFS = dz\<rparr>"

definition exampleFilesystem :: libzfs_Dataset where
  "exampleFilesystem =
     filesystemHandle \<lparr>Value = ''/a'', Source = ''inherited from pool''\<rparr>
                      \<lparr>Value = ''on'', Source = ''temporary''\<rparr>"

definition exampleHandle :: libzfs_Dataset where
  "exampleHandle =
     filesystemHandle \<lparr>Value = ''/'', Source = ''local''\<rparr> \<lparr>Value = ''on'', Source = ''default''\<rparr>"

definition snapshotOf :: "string \<Rightarrow> string \<Rightarrow> Dataset" where
  "snapshotOf name leaf = Dataset (newDataset (name @ ''@'' @ leaf) True (snapshotHandle [])) []"

definition integrityTree :: "bool \<Rightarrow> bool \<Rightarrow> Dataset" where
  "integrityTree rootHas childHas =
     Dataset (newDataset ''root'' False exampleHandle)
       ((if rootHas then [snapshotOf ''root'' ''daily''] else []) @
        [Dataset (newDataset ''root/A'' False exampleHandle)
           (if childHas then [snapshotOf ''root/A'' ''daily''] else [])])"

definition filesystemAt :: "string \<Rightarrow> string \<Rightarrow> string \<Rightarrow> DatasetFields" where
  "filesystemAt name mountpoint source =
     (newDataset name False exampleHandle)
       \<lparr>Mountpoint := mountpoint,
        sources := (sources (newDataset name False exampleHandle))\<lparr>srcMountpoint := source\<rparr>\<rparr>"

definition chainC :: Dataset where
  "chainC = Dataset (filesystemAt ''root/A/B/C'' ''/custom/C'' ''inherited'') []"

definition chainB :: Dataset where
  "chainB = Dataset (filesystemAt ''root/A/B'' ''/custom'' ''local'') [chainC]"

definition chainA :: Dataset where
  "chainA = Dataset (filesystemAt ''root/A'' ''/A'' ''inherited'') [chainB]"

definition chainRoot :: Dataset where
  "chainRoot = Dataset (filesystemAt ''root'' ''/'' ''local'') [chainA]"

definition failingHandle :: libzfs_Dataset where
  "failingHandle = exampleHandle\<lparr>SetProperty := (\<lambda>_ _. Some (BackendError ''read-only''))\<rparr>"

definition readOnlyRoot :: Dataset where
  "readOnlyRoot = Dataset ((filesystemAt ''root'' ''/'' ''local'')\<lparr>dZFS := failingHandle\<rparr>) [chainA]"

definition usedDataset :: Dataset where
  "usedDataset = Dataset ((filesystemAt ''pool/used'' ''/used'' ''local'')\<lparr>LastUsed := 5\<rparr>) []"

text \<open>The promotion example of the spec: pointers 2 (base), 3 (clone), 4 (base@1), 5 (base@2).\<close>

definition objectAt :: "string \<Rightarrow> bool \<Rightarrow> int \<Rightarrow> string \<Rightarrow> ref list \<Rightarrow> DatasetObj" where
  "objectAt name snap used origin cs =
     \<lparr>Mountpoint = [], CanMount = [], Mounted = False, BootFS = False, LastUsed = used,
      LastBootedKernel = [], BootfsDatasets = [], Origin = origin,
      sources = \<lparr>srcMountpoint = [], srcCanMount = [], srcBootFS = [], srcLastUsed = [],
                 srcLastBootedKernel = [], srcBootfsDatasets = []\<rparr>,
      Name = name, IsSnapshot = snap, dZFS = exampleHandle, childrenRefs = cs\<rparr>"

definition promotionExample :: Zfs where
  "promotionExample =
     \<lparr>allDatasets = [''base'' \<mapsto> 2, ''clone'' \<mapsto> 3, ''base@1'' \<mapsto> 4, ''base@2'' \<mapsto> 5],
      heap = (\<lambda>r. if r = 2 then objectAt ''base'' False 0 [] [4, 5]
                   else if r = 3 then objectAt ''clone'' False 0 ''base@2'' []
                   else if r = 4 then objectAt ''base@1'' True 10 [] []
                   else objectAt ''base@2'' True 30 [] [])\<rparr>"

definition filesystemWith :: "string \<Rightarrow> Dataset list \<Rightarrow> Dataset" where
  "filesystemWith name cs = Dataset (newDataset name False exampleHandle) cs"

definition twoTree :: Dataset where
  "twoTree =
     filesystemWith ''root''
       [filesystemWith ''root/A'' [filesystemWith ''root/A/X'' [snapshotOf ''root/A/X'' ''daily'']],
        filesystemWith ''root/B'' [snapshotOf ''root/B'' ''daily'']]"

definition deepTree :: Dataset where
  "deepTree =
     filesystemWith ''root''
       [snapshotOf ''root'' ''daily'',
        filesystemWith ''root/A'' [filesystemWith ''root/A/B'' [snapshotOf ''root/A/B'' ''daily'']]]"



subsection \<open>Notions used in the proofs about paths\<close>

text \<open>
  A plain path element is not empty, not \<open>.\<close>, not \<open>..\<close> and has no slash. \<open>finish\<close>
  is the last step of \<open>Clean\<close>, from the elements that are left to the path.
\<close>

definition plain :: "string \<Rightarrow> bool" where
  "plain e = (e \<noteq> [] \<and> e \<noteq> ''.'' \<and> e \<noteq> ''..'' \<and> CHR ''/'' \<notin> set e)"

definition finish :: "bool \<Rightarrow> string list \<Rightarrow> string" where
  "finish rooted out =
     (if rooted then CHR ''/'' # joinWith ''/'' out
      else if out = [] then ''.''
      else joinWith ''/'' out)"

section \<open>Properties of the string helpers\<close>

lemma LastIndex_None_iff: "LastIndex s c = None \<longleftrightarrow> c \<notin> set s"
  by (induction s) (auto split: option.splits)

lemma LastIndex_append_last:
  "c \<notin> set t \<Longrightarrow> LastIndex (v @ c # t) c = Some (length v)"
  by (induction v) (auto simp: LastIndex_None_iff[THEN iffD2] split: option.splits)

lemma LastIndex_Some_split:
  "LastIndex s c = Some i \<Longrightarrow> s = take i s @ c # drop (Suc i) s \<and> c \<notin> set (drop (Suc i) s) \<and> i < length s"
proof (induction s arbitrary: i)
  case Nil
  then show ?case by simp
next
  case (Cons x xs)
  show ?case
  proof (cases "LastIndex xs c")
    case None
    with Cons.prems have "x = c" "i = 0" by (auto split: if_splits)
    moreover from None have "c \<notin> set xs" by (simp add: LastIndex_None_iff)
    ultimately show ?thesis by simp
  next
    case (Some j)
    with Cons.prems have i: "i = Suc j" by simp
    from Cons.IH[OF Some] show ?thesis unfolding i by simp
  qed
qed

section \<open>Frozen properties of snapshots\<close>

text \<open>
  C10. For a snapshot whose user property is set locally but whose stored value holds no
  \<open>":"\<close>, \<open>getUserPropertyFromSys\<close> returns an empty value, an empty source and no
  error, and logs a warning: the malformed value is treated as absent.
\<close>

theorem getUserPropertyFromSys_malformed:
  assumes "libzfs_IsSnapshot dz"
    and "GetUserProperty dz prop = Inr p"
    and "Source p = ''local''"
    and "CHR '':'' \<notin> set (Value p)"
  shows "snd (getUserPropertyFromSys prop dz) = ('''', '''', None)
       \<and> Warningf \<in> set (fst (getUserPropertyFromSys prop dz))"
  using assms
  by (simp add: getUserPropertyFromSys_def LastIndex_None_iff[THEN iffD2])

theorem getUserPropertyFromSys_malformed_witness:
  "libzfs_IsSnapshot (snapshotHandle ''yes'')
   \<and> snd (getUserPropertyFromSys BootfsProp (snapshotHandle ''yes'')) = ([], [], None)
   \<and> Warningf \<in> set (fst (getUserPropertyFromSys BootfsProp (snapshotHandle ''yes'')))"
  using getUserPropertyFromSys_malformed
          [of "snapshotHandle ''yes''" BootfsProp "\<lparr>Value = ''yes'', Source = ''local''\<rparr>"]
  by (simp add: snapshotHandle_def libzfs_IsSnapshot_def)

text \<open>
  C6, as stated: a snapshot never reports \<open>inherited\<close> for a frozen property. It does:
  a snapshot frozen with \<open>/home:inherited\<close> reports the provenance \<open>inherited\<close>.
\<close>

theorem getUserPropertyFromSys_snapshot_inherited:
  "libzfs_IsSnapshot (snapshotHandle ''/home:inherited'')
   \<and> snd (getUserPropertyFromSys SnapshotMountpointProp (snapshotHandle ''/home:inherited''))
       = (''/home'', ''inherited'', None)"
  by (simp add: getUserPropertyFromSys_def snapshotHandle_def libzfs_IsSnapshot_def)

text \<open>
  C6, amended. For a snapshot and a user property that the backend returns: when the
  backend source is not \<open>local\<close> the result is an empty value, an empty source and no
  error; when it is \<open>local\<close> and the stored value is \<open>v:s\<close> with no \<open>":"\<close> in \<open>s\<close> (the
  split at the last \<open>":"\<close>), the value is \<open>v\<close> and the provenance is \<open>s\<close> when \<open>s\<close> is
  \<open>local\<close> or \<open>default\<close>, and \<open>inherited\<close> for every other \<open>s\<close>.
\<close>

theorem getUserPropertyFromSys_snapshot:
  assumes "libzfs_IsSnapshot dz"
    and "GetUserProperty dz prop = Inr p"
  shows "(Source p \<noteq> ''local'' \<longrightarrow> snd (getUserPropertyFromSys prop dz) = ([], [], None))
       \<and> (Source p = ''local'' \<longrightarrow> Value p = v @ '':'' @ s \<longrightarrow> CHR '':'' \<notin> set s \<longrightarrow>
            snd (getUserPropertyFromSys prop dz)
              = (v, if s = ''local'' \<or> s = ''default'' then s else ''inherited'', None))"
proof (intro conjI impI)
  assume "Source p \<noteq> ''local''"
  with assms show "snd (getUserPropertyFromSys prop dz) = ([], [], None)"
    by (simp add: getUserPropertyFromSys_def)
next
  assume loc: "Source p = ''local''" and val: "Value p = v @ '':'' @ s" and s: "CHR '':'' \<notin> set s"
  from s have "LastIndex (v @ CHR '':'' # s) CHR '':'' = Some (length v)"
    by (rule LastIndex_append_last)
  with assms loc val
  show "snd (getUserPropertyFromSys prop dz)
          = (v, if s = ''local'' \<or> s = ''default'' then s else ''inherited'', None)"
    by (simp add: getUserPropertyFromSys_def Let_def)
qed

theorem getUserPropertyFromSys_snapshot_witness:
  "libzfs_IsSnapshot (snapshotHandle ''/home:local'')
   \<and> snd (getUserPropertyFromSys SnapshotMountpointProp (snapshotHandle ''/home:local''))
       = (''/home'', ''local'', None)"
  using getUserPropertyFromSys_snapshot
          [of "snapshotHandle ''/home:local''" SnapshotMountpointProp
              "\<lparr>Value = ''/home:local'', Source = ''local''\<rparr>" "''/home''" "''local''"]
  by (simp add: snapshotHandle_def libzfs_IsSnapshot_def)

section \<open>Provenance of the native properties\<close>

text \<open>
  C5, as stated: any backend source tag other than \<open>local\<close> and \<open>default\<close> becomes
  \<open>inherited\<close>, for canMount as for mountpoint. For canMount it does not: with the
  tag \<open>temporary\<close>, the refresh succeeds and stores the empty (default) marker.
\<close>

theorem RefreshProperties_canMount_not_inherited:
  "\<not> IsSnapshot (newDataset ''pool/a'' False exampleFilesystem)
   \<and> Source (Properties exampleFilesystem DatasetPropCanmount) = ''temporary''
   \<and> fst (RefreshProperties (newDataset ''pool/a'' False exampleFilesystem) exampleFilesystem) = None
   \<and> srcCanMount (sources (snd (RefreshProperties (newDataset ''pool/a'' False exampleFilesystem)
                                  exampleFilesystem))) = []
   \<and> srcMountpoint (sources (snd (RefreshProperties (newDataset ''pool/a'' False exampleFilesystem)
                                  exampleFilesystem))) = ''inherited''"
  by (simp add: RefreshProperties_def refreshMountProps_def exampleFilesystem_def
      filesystemHandle_def newDataset_def getUserPropertyFromSys_def noProperty_def TrimPrefix_def
      simplifyCanMountSource_def simplifyMountpointSource_def libzfs_IsSnapshot_def
      Atoi_def isDigit_def digitVal_def Let_def)

text \<open>
  C5, amended. For a dataset that is not a snapshot, after a successful
  \<open>RefreshProperties\<close> the provenance of mountpoint is \<open>local\<close> when the backend tag
  is \<open>local\<close>, the default marker (the empty string) when it is \<open>default\<close> and
  \<open>inherited\<close> for every other tag; the provenance of canMount is \<open>local\<close> when the
  backend tag is \<open>local\<close> and the default marker for every other tag.
\<close>

theorem RefreshProperties_native_sources:
  assumes "\<not> IsSnapshot d"
    and "RefreshProperties d dz = (None, d')"
  shows "srcMountpoint (sources d') =
           (if Source (Properties dz DatasetPropMountpoint) = ''local'' then ''local''
            else if Source (Properties dz DatasetPropMountpoint) = ''default'' then []
            else ''inherited'')
       \<and> srcCanMount (sources d') =
           (if Source (Properties dz DatasetPropCanmount) = ''local'' then ''local'' else [])"
  using assms
  by (auto simp: RefreshProperties_def refreshMountProps_def Let_def
        simplifyCanMountSource_def simplifyMountpointSource_def
      split: sum.splits prod.splits option.splits if_splits)

theorem RefreshProperties_native_sources_witness:
  "\<not> IsSnapshot (newDataset ''pool/a'' False exampleFilesystem)
   \<and> fst (RefreshProperties (newDataset ''pool/a'' False exampleFilesystem) exampleFilesystem) = None
   \<and> srcMountpoint (sources (snd (RefreshProperties (newDataset ''pool/a'' False exampleFilesystem)
                                  exampleFilesystem)))
       = ''inherited''"
proof -
  let ?d = "newDataset ''pool/a'' False exampleFilesystem"
  have ok: "fst (RefreshProperties ?d exampleFilesystem) = None"
    by (simp add: RefreshProperties_def refreshMountProps_def exampleFilesystem_def
      filesystemHandle_def newDataset_def getUserPropertyFromSys_def noProperty_def TrimPrefix_def
      libzfs_IsSnapshot_def Atoi_def isDigit_def digitVal_def Let_def)
  have ns: "\<not> IsSnapshot ?d" by (simp add: newDataset_def)
  from ok have "RefreshProperties ?d exampleFilesystem = (None, snd (RefreshProperties ?d exampleFilesystem))"
    by (metis prod.collapse)
  from RefreshProperties_native_sources[OF ns this] ns ok show ?thesis
    by (simp add: exampleFilesystem_def filesystemHandle_def)
qed

section \<open>Snapshot integrity\<close>

lemma check_cases:
  "checkSnapshotHierarchyIntegrity d N f =
     (if hasSnapshot d N \<and> \<not> f
      then Some (SnapshotIntegrity (Name (self d)) N (Name (self d) @ ''@'' @ N))
      else checkChildren (children d) N (hasSnapshot d N))"
  by (cases d) (simp add: hasSnapshot_def)

lemma self_in_subtree: "d \<in> set (subtree d)"
  by (cases d) simp

lemma child_subtree: "c \<in> set (children d) \<Longrightarrow> x \<in> set (subtree c) \<Longrightarrow> x \<in> set (subtree d)"
  by (cases d) auto

lemma checkChildren_first:
  "\<forall>p \<in> set pre. IsSnapshot (self p) \<or> checkSnapshotHierarchyIntegrity p N f = None \<Longrightarrow>
   checkChildren (pre @ post) N f = checkChildren post N f"
  by (induction pre) auto

lemma checkChildren_fails:
  "c \<in> set cs \<Longrightarrow> \<not> IsSnapshot (self c) \<Longrightarrow> checkSnapshotHierarchyIntegrity c N f \<noteq> None \<Longrightarrow>
   checkChildren cs N f \<noteq> None"
  by (induction cs) (auto split: option.splits)

lemma violations_cases:
  "violations N f d =
     (if hasSnapshot d N \<and> \<not> f then [d] else [])
     @ concat (map (\<lambda>c. if IsSnapshot (self c) then [] else violations N (hasSnapshot d N) c)
                 (children d))"
proof (cases d)
  case (Dataset f' cs)
  show ?thesis
    unfolding Dataset by (simp only: violations.simps hasSnapshot_def Dataset.sel)
qed

lemma integrityError_append:
  "integrityError N (xs @ ys) = (case integrityError N xs of Some e \<Rightarrow> Some e | None \<Rightarrow> integrityError N ys)"
  by (cases xs) (simp_all add: integrityError_def)

lemma check_is_first_violation:
  "checkSnapshotHierarchyIntegrity d N f = integrityError N (violations N f d)"
  "checkChildren cs N f =
     integrityError N (concat (map (\<lambda>c. if IsSnapshot (self c) then [] else violations N f c) cs))"
proof (induction d N f and cs N f rule: checkSnapshotHierarchyIntegrity_checkChildren.induct)
  case (1 d cs N f)
  show ?case
  proof (cases "hasChildNamed cs (Name d @ ''@'' @ N) \<and> \<not> f")
    case True
    then show ?thesis by (simp add: integrityError_def)
  next
    case False
    from "1.IH"[OF False] False show ?thesis by auto
  qed
next
  case (2 N f)
  show ?case by (simp add: integrityError_def)
next
  case (3 cd cds N f)
  show ?case
  proof (cases "IsSnapshot (self cd)")
    case True
    with "3.IH"(1)[OF True] show ?thesis by simp
  next
    case False
    show ?thesis
    proof (cases "checkSnapshotHierarchyIntegrity cd N f")
      case None
      with "3.IH"(2)[OF False] "3.IH"(3)[OF False None] False show ?thesis
        by (simp add: integrityError_append)
    next
      case (Some e)
      from "3.IH"(2)[OF False] Some have "integrityError N (violations N f cd) = Some e" by simp
      with Some False show ?thesis
        by (simp add: integrityError_append)
    qed
  qed
qed

lemma violations_hold:
  "x \<in> set (violations N f d) \<Longrightarrow> hasSnapshot x N \<and> x \<in> set (subtree d)"
proof (induction N f d arbitrary: x rule: violations.induct)
  case (1 N f d cs)
  from "1.prems" consider (self) "x = Dataset d cs" "hasChildNamed cs (Name d @ ''@'' @ N)"
    | (below) c where "c \<in> set cs" "\<not> IsSnapshot (self c)"
        "x \<in> set (violations N (hasChildNamed cs (Name d @ ''@'' @ N)) c)"
    by (auto split: if_splits)
  then show ?case
  proof cases
    case self
    then show ?thesis by (simp add: hasSnapshot_def)
  next
    case below
    from "1.IH"[OF below(1) below(2) below(3)] below(1) show ?thesis by auto
  qed
qed

lemma checkChildren_None_iff:
  "checkChildren cs N f = None \<longleftrightarrow>
     (\<forall>c \<in> set cs. \<not> IsSnapshot (self c) \<longrightarrow> checkSnapshotHierarchyIntegrity c N f = None)"
  by (induction cs) (auto split: option.splits)

text \<open>
  C7, as stated: at a root that lacks \<open>root@N\<close>, checked with \<open>false\<close>, the error names
  \<open>child@N\<close> for a child that holds it. Here \<open>root/B\<close> holds \<open>root/B@daily\<close>, and the error
  names \<open>root/A/X@daily\<close>, two levels down in the child before it: the check returns the
  first error it meets.
\<close>

theorem checkSnapshotHierarchyIntegrity_names_other_dataset:
  "\<not> hasSnapshot twoTree ''daily''
   \<and> children twoTree ! 1 \<in> set (children twoTree)
   \<and> \<not> IsSnapshot (self (children twoTree ! 1))
   \<and> Name (self (children twoTree ! 1)) = ''root/B''
   \<and> hasSnapshot (children twoTree ! 1) ''daily''
   \<and> checkSnapshotHierarchyIntegrity twoTree ''daily'' False
       = Some (SnapshotIntegrity ''root/A/X'' ''daily'' ''root/A/X@daily'')"
  by (simp add: twoTree_def filesystemWith_def snapshotOf_def newDataset_def hasSnapshot_def)

text \<open>
  C7, amended. For every tree, snapshot name \<open>N\<close> and seed: the check returns the integrity
  error that names \<open>x@N\<close> for the first dataset \<open>x\<close>, parents first and children in their
  order, that holds \<open>x@N\<close> while flagged \<open>false\<close>, and no error when there is none; the
  flag of the root is the seed and the flag of every other dataset says whether its
  parent holds the snapshot, at every depth. Every such dataset is in the tree and holds
  the snapshot. So at a root that lacks \<open>root@N\<close>, checked with \<open>false\<close>, a child that is
  not a snapshot and holds \<open>child@N\<close> is such a dataset and the check fails; it fails
  with the error naming \<open>child@N\<close> when the children before it pass. Checked with
  \<open>true\<close>, a dataset is never at fault itself, whether or not it holds the snapshot: it
  passes exactly when its children pass with the flag that says whether it holds the
  snapshot.
\<close>

theorem checkSnapshotHierarchyIntegrity_first_violation:
  "checkSnapshotHierarchyIntegrity d N flag = integrityError N (violations N flag d)
  \<and> (\<forall>x \<in> set (violations N flag d). hasSnapshot x N \<and> x \<in> set (subtree d))
  \<and> (\<not> hasSnapshot root N \<longrightarrow> c \<in> set (children root) \<longrightarrow> \<not> IsSnapshot (self c) \<longrightarrow>
      hasSnapshot c N \<longrightarrow>
        c \<in> set (violations N False root) \<and> checkSnapshotHierarchyIntegrity root N False \<noteq> None)
  \<and> (\<not> hasSnapshot root N \<longrightarrow> children root = pre @ c # post \<longrightarrow>
      (\<forall>p \<in> set pre. IsSnapshot (self p) \<or> checkSnapshotHierarchyIntegrity p N False = None) \<longrightarrow>
      \<not> IsSnapshot (self c) \<longrightarrow> hasSnapshot c N \<longrightarrow>
      checkSnapshotHierarchyIntegrity root N False
        = Some (SnapshotIntegrity (Name (self c)) N (Name (self c) @ ''@'' @ N)))
  \<and> (checkSnapshotHierarchyIntegrity d N True = None \<longleftrightarrow>
       (\<forall>c \<in> set (children d). \<not> IsSnapshot (self c) \<longrightarrow>
          checkSnapshotHierarchyIntegrity c N (hasSnapshot d N) = None))"
proof (intro conjI impI ballI)
  show "checkSnapshotHierarchyIntegrity d N flag = integrityError N (violations N flag d)"
    by (rule check_is_first_violation(1))
next
  fix x assume "x \<in> set (violations N flag d)"
  then show "hasSnapshot x N" and "x \<in> set (subtree d)"
    using violations_hold by blast+
next
  assume root: "\<not> hasSnapshot root N" and c: "c \<in> set (children root)" "\<not> IsSnapshot (self c)"
    and has: "hasSnapshot c N"
  from has have "c \<in> set (violations N False c)"
    by (subst violations_cases) simp
  with c root show "c \<in> set (violations N False root)"
    by (subst violations_cases) auto
  from has have "checkSnapshotHierarchyIntegrity c N False \<noteq> None"
    by (simp add: check_cases)
  from checkChildren_fails[OF c this] root
  show "checkSnapshotHierarchyIntegrity root N False \<noteq> None"
    by (simp add: check_cases)
next
  assume root: "\<not> hasSnapshot root N" and cs: "children root = pre @ c # post"
    and pre: "\<forall>p \<in> set pre. IsSnapshot (self p) \<or> checkSnapshotHierarchyIntegrity p N False = None"
    and c: "\<not> IsSnapshot (self c)" "hasSnapshot c N"
  have "checkSnapshotHierarchyIntegrity root N False = checkChildren (pre @ c # post) N False"
    using root cs by (simp add: check_cases)
  also have "\<dots> = checkChildren (c # post) N False"
    using pre by (rule checkChildren_first)
  also have "\<dots> = Some (SnapshotIntegrity (Name (self c)) N (Name (self c) @ ''@'' @ N))"
    using c by (simp add: check_cases)
  finally show "checkSnapshotHierarchyIntegrity root N False
        = Some (SnapshotIntegrity (Name (self c)) N (Name (self c) @ ''@'' @ N))" .
next
  show "checkSnapshotHierarchyIntegrity d N True = None \<longleftrightarrow>
       (\<forall>c \<in> set (children d). \<not> IsSnapshot (self c) \<longrightarrow>
          checkSnapshotHierarchyIntegrity c N (hasSnapshot d N) = None)"
    by (simp add: check_cases checkChildren_None_iff)
qed

theorem checkSnapshotHierarchyIntegrity_first_violation_witness:
  "\<not> hasSnapshot (integrityTree False True) ''daily''
   \<and> checkSnapshotHierarchyIntegrity (integrityTree False True) ''daily'' False
       = Some (SnapshotIntegrity ''root/A'' ''daily'' ''root/A@daily'')
   \<and> hasSnapshot deepTree ''daily''
   \<and> checkSnapshotHierarchyIntegrity deepTree ''daily'' True
       = Some (SnapshotIntegrity ''root/A/B'' ''daily'' ''root/A/B@daily'')
   \<and> checkSnapshotHierarchyIntegrity (integrityTree True True) ''daily'' True = None
   \<and> checkSnapshotHierarchyIntegrity (integrityTree True False) ''daily'' True = None"
proof -
  let ?A = "Dataset (newDataset ''root/A'' False exampleHandle) [snapshotOf ''root/A'' ''daily'']"
  have r: "\<not> hasSnapshot (integrityTree False True) ''daily''"
    by (simp add: integrityTree_def hasSnapshot_def snapshotOf_def newDataset_def)
  have cs: "children (integrityTree False True) = [] @ ?A # []"
    by (simp add: integrityTree_def)
  have a: "\<not> IsSnapshot (self ?A)" "hasSnapshot ?A ''daily''"
    by (simp_all add: hasSnapshot_def snapshotOf_def newDataset_def)
  have "checkSnapshotHierarchyIntegrity (integrityTree False True) ''daily'' False
          = Some (SnapshotIntegrity (Name (self ?A)) ''daily'' (Name (self ?A) @ ''@'' @ ''daily''))"
  proof -
    from checkSnapshotHierarchyIntegrity_first_violation
            [where root = "integrityTree False True" and N = "''daily''" and c = ?A
               and pre = "[]" and post = "[]" and d = deepTree and flag = True]
    have "\<not> hasSnapshot (integrityTree False True) ''daily'' \<longrightarrow>
          children (integrityTree False True) = [] @ ?A # [] \<longrightarrow>
          (\<forall>p \<in> set []. IsSnapshot (self p) \<or> checkSnapshotHierarchyIntegrity p ''daily'' False = None) \<longrightarrow>
          \<not> IsSnapshot (self ?A) \<longrightarrow> hasSnapshot ?A ''daily'' \<longrightarrow>
          checkSnapshotHierarchyIntegrity (integrityTree False True) ''daily'' False
            = Some (SnapshotIntegrity (Name (self ?A)) ''daily'' (Name (self ?A) @ ''@'' @ ''daily''))"
      by blast
    with r cs a show ?thesis by simp
  qed
  then have e1: "checkSnapshotHierarchyIntegrity (integrityTree False True) ''daily'' False
          = Some (SnapshotIntegrity ''root/A'' ''daily'' ''root/A@daily'')"
    by (simp add: newDataset_def)
  have h: "hasSnapshot deepTree ''daily''"
    by (simp add: deepTree_def filesystemWith_def hasSnapshot_def snapshotOf_def newDataset_def)
  have v: "integrityError ''daily'' (violations ''daily'' True deepTree)
             = Some (SnapshotIntegrity ''root/A/B'' ''daily'' ''root/A/B@daily'')"
    by (simp add: deepTree_def filesystemWith_def snapshotOf_def newDataset_def integrityError_def)
  have e2: "checkSnapshotHierarchyIntegrity deepTree ''daily'' True
       = Some (SnapshotIntegrity ''root/A/B'' ''daily'' ''root/A/B@daily'')"
    using checkSnapshotHierarchyIntegrity_first_violation
            [where d = deepTree and N = "''daily''" and flag = True] v
    by simp
  have p: "\<forall>c \<in> set (children (integrityTree True b)). \<not> IsSnapshot (self c) \<longrightarrow>
             checkSnapshotHierarchyIntegrity c ''daily'' (hasSnapshot (integrityTree True b) ''daily'') = None" for b
    by (simp add: integrityTree_def hasSnapshot_def snapshotOf_def newDataset_def)
  have e3: "checkSnapshotHierarchyIntegrity (integrityTree True True) ''daily'' True = None"
    using checkSnapshotHierarchyIntegrity_first_violation
            [where d = "integrityTree True True" and N = "''daily''"] p[of True]
    by blast
  have e4: "checkSnapshotHierarchyIntegrity (integrityTree True False) ''daily'' True = None"
    using checkSnapshotHierarchyIntegrity_first_violation
            [where d = "integrityTree True False" and N = "''daily''"] p[of False]
    by blast
  from r e1 h e2 e3 e4 show ?thesis by simp
qed

section \<open>Setting a property\<close>

text \<open>
  C4. When the write to the backend fails, \<open>setProperty\<close> returns the error of the
  backend and the dataset is as before, with everything below it.
\<close>

theorem setProperty_backend_failure:
  assumes "stringToProp (self D) P = Inr (np, up, destV, destS)"
    and "writeProperty (self D) np up v s = Some err"
  shows "setProperty D P v s = (Some err, D)"
  using assms by (simp add: setProperty_def)

theorem setProperty_backend_failure_witness:
  "writeProperty (self readOnlyRoot) DatasetPropMountpoint MountPointProp ''/new'' ''local''
     = Some (BackendError ''read-only'')
   \<and> setProperty readOnlyRoot MountPointProp ''/new'' ''local''
       = (Some (BackendError ''read-only''), readOnlyRoot)"
proof -
  have p: "stringToProp (self readOnlyRoot) MountPointProp
             = Inr (DatasetPropMountpoint, MountPointProp, PtrMountpoint, PtrSrcMountpoint)"
    by (simp add: readOnlyRoot_def filesystemAt_def newDataset_def)
  have w: "writeProperty (self readOnlyRoot) DatasetPropMountpoint MountPointProp ''/new'' ''local''
             = Some (BackendError ''read-only'')"
    by (simp add: writeProperty_def readOnlyRoot_def failingHandle_def empty_def)
  from setProperty_backend_failure[OF p w] w show ?thesis by simp
qed

text \<open>
  C2, at last-used. The dataset has \<open>LastUsed = 5\<close>; \<open>setProperty\<close> with the value
  \<open>42\<close> returns no error and leaves \<open>LastUsed\<close> at 5, although \<open>42\<close> parses to 42: the
  string that is parsed is the one made from the current \<open>LastUsed\<close>. The provenance is
  written.
\<close>

theorem setProperty_lastUsed_keeps_old_value:
  "LastUsed (self usedDataset) = 5
   \<and> fst (setProperty usedDataset LastUsedProp ''42'' ''local'') = None
   \<and> LastUsed (self (snd (setProperty usedDataset LastUsedProp ''42'' ''local''))) = 5
   \<and> srcLastUsed (sources (self (snd (setProperty usedDataset LastUsedProp ''42'' ''local'')))) = ''local''
   \<and> Atoi ''42'' = Inr 42"
  by (simp add: setProperty_def usedDataset_def filesystemAt_def newDataset_def writeProperty_def
      exampleHandle_def filesystemHandle_def empty_def refreshLocal_def Itoa_def digitChar_def
      Atoi_def isDigit_def digitVal_def Let_def)

lemma local_not_inherits:
  "srcMountpoint (sources c) = ''local'' \<Longrightarrow> \<not> inherits MountPointProp c"
  by (simp add: inherits_def empty_def)

lemma refreshInheritedChildren_nth:
  "refreshInheritedChildren n v old cs = Inr cs' \<Longrightarrow>
     length cs' = length cs
     \<and> (\<forall>i < length cs.
          (\<not> inherits n (self (cs ! i)) \<longrightarrow> cs' ! i = cs ! i)
        \<and> (inherits n (self (cs ! i)) \<longrightarrow>
             refreshInheritedChildren n v old (children (cs ! i)) = Inr (children (cs' ! i))))"
proof (induction n v old cs arbitrary: cs' rule: refreshInheritedChildren.induct)
  case (1 name "value" oldMountPoint)
  then show ?case by simp
next
  case (2 name "value" oldMountPoint c gcs cs)
  show ?case
  proof (cases "inherits name c")
    case False
    with "2.prems" obtain r where r: "refreshInheritedChildren name value oldMountPoint cs = Inr r"
      and cs': "cs' = Dataset c gcs # r"
      by (auto split: sum.splits)
    from "2.IH"(1)[OF False r] False show ?thesis
      unfolding cs' by (auto simp: nth_Cons split: nat.splits)
  next
    case True
    with "2.prems" obtain c' g r where c': "refreshChild name value oldMountPoint c = Inr c'"
      and g: "refreshInheritedChildren name value oldMountPoint gcs = Inr g"
      and r: "refreshInheritedChildren name value oldMountPoint cs = Inr r"
      and cs': "cs' = Dataset c' g # r"
      by (auto split: sum.splits)
    have T: "\<not> \<not> inherits name c" using True by simp
    from "2.IH"(3)[OF T c' g r] True g show ?thesis
      unfolding cs' by (auto simp: nth_Cons split: nat.splits)
  qed
qed

text \<open>
  C3, as stated: in the chain root, A, B, C with B at \<open>/custom\<close> (local) and C at
  \<open>/custom/C\<close> (inherited), C would move to \<open>/new/C\<close>. It stays at \<open>/custom/C\<close>.
\<close>

theorem setProperty_chain_below_local:
  "fst (setProperty chainRoot MountPointProp ''/new'' ''local'') = None
   \<and> map (\<lambda>d. (Name (self d), Mountpoint (self d)))
         (subtree (snd (setProperty chainRoot MountPointProp ''/new'' ''local'')))
       = [(''root'', ''/new''), (''root/A'', ''/new/A''), (''root/A/B'', ''/custom''),
          (''root/A/B/C'', ''/custom/C'')]
   \<and> Join [''/new'', TrimPrefix ''/custom/C'' ''/custom''] = ''/new/C''"
  by (simp add: setProperty_def chainRoot_def chainA_def chainB_def chainC_def filesystemAt_def
      newDataset_def writeProperty_def exampleHandle_def filesystemHandle_def empty_def
      refreshLocal_def inherits_def refreshChild_def Join_def Clean_def cleanStep_def
      TrimPrefix_def Let_def)

text \<open>
  C3, amended. After a successful \<open>setProperty\<close> of mountpoint on a root, a dataset B
  two levels down whose mountpoint is local is exactly as before with everything below
  it: B keeps its mountpoint and so does C, a child of B.
\<close>

theorem setProperty_keeps_local_branch:
  assumes "setProperty root MountPointProp v s = (None, root')"
    and "i < length (children root)"
    and "j < length (children (children root ! i))"
    and "srcMountpoint (sources (self (children (children root ! i) ! j))) = ''local''"
  shows "children (children root' ! i) ! j = children (children root ! i) ! j"
proof -
  let ?A = "children root ! i"
  let ?B = "children ?A ! j"
  from assms(1) obtain cs' where cs': "refreshInheritedChildren MountPointProp v (Mountpoint (self root)) (children root) = Inr cs'"
    and root': "children root' = cs'"
    by (auto simp: setProperty_def refreshLocal_def Let_def split: sum.splits option.splits if_splits prod.splits)
  note n1 = refreshInheritedChildren_nth[OF cs']
  have nb: "\<not> inherits MountPointProp (self ?B)"
    using assms(4) by (rule local_not_inherits)
  show ?thesis
  proof (cases "inherits MountPointProp (self ?A)")
    case False
    with n1 assms(2) have "cs' ! i = ?A" by simp
    then show ?thesis by (simp add: root')
  next
    case True
    with n1 assms(2) have "refreshInheritedChildren MountPointProp v (Mountpoint (self root)) (children ?A)
        = Inr (children (cs' ! i))" by simp
    from refreshInheritedChildren_nth[OF this] assms(3) nb
    have "children (cs' ! i) ! j = ?B" by simp
    then show ?thesis by (simp add: root')
  qed
qed

theorem setProperty_keeps_local_branch_witness:
  "fst (setProperty chainRoot MountPointProp ''/new'' ''local'') = None
   \<and> children (children (snd (setProperty chainRoot MountPointProp ''/new'' ''local'')) ! 0) ! 0 = chainB"
proof -
  have ok: "fst (setProperty chainRoot MountPointProp ''/new'' ''local'') = None"
    by (simp add: setProperty_def chainRoot_def chainA_def chainB_def chainC_def filesystemAt_def
      newDataset_def writeProperty_def exampleHandle_def filesystemHandle_def empty_def
      refreshLocal_def inherits_def refreshChild_def Let_def)
  then have eq: "setProperty chainRoot MountPointProp ''/new'' ''local''
      = (None, snd (setProperty chainRoot MountPointProp ''/new'' ''local''))"
    by (metis prod.collapse)
  have i: "0 < length (children chainRoot)" by (simp add: chainRoot_def)
  have j: "0 < length (children (children chainRoot ! 0))" by (simp add: chainRoot_def chainA_def)
  have l: "srcMountpoint (sources (self (children (children chainRoot ! 0) ! 0))) = ''local''"
    by (simp add: chainRoot_def chainA_def chainB_def filesystemAt_def newDataset_def)
  from setProperty_keeps_local_branch[OF eq i j l] ok show ?thesis
    by (simp add: chainRoot_def chainA_def)
qed

section \<open>Origin inversion\<close>

lemma snapshotsToMigrate_filter:
  "snapshotsToMigrate h b cs = [c \<leftarrow> cs. IsSnapshot (h c) \<and> LastUsed (h c) \<le> LastUsed (h b)]"
  by (induction cs) auto

lemma findChild_found:
  "s \<in> set cs \<Longrightarrow>
     0 \<le> i \<Longrightarrow> i \<le> findChild cs s i j
     \<and> take (nat (findChild cs s i j - i)) cs @ drop (nat (findChild cs s i j - i) + 1) cs = remove1 s cs"
proof (induction cs arbitrary: i j)
  case Nil
  then show ?case by simp
next
  case (Cons c cs)
  show ?case
  proof (cases "c = s")
    case True
    then show ?thesis by simp
  next
    case False
    with Cons.prems have "s \<in> set cs" by simp
    from Cons.IH[OF this, of "i + 1" i] Cons.prems(2)
    have le: "i + 1 \<le> findChild cs s (i + 1) i"
      and eq: "take (nat (findChild cs s (i + 1) i - (i + 1))) cs
             @ drop (nat (findChild cs s (i + 1) i - (i + 1)) + 1) cs = remove1 s cs"
      by auto
    from le have n: "nat (findChild cs s (i + 1) i - i) = Suc (nat (findChild cs s (i + 1) i - (i + 1)))"
      by simp
    from False le eq show ?thesis
      by (simp add: n)
  qed
qed

text \<open>
  Without a match the loop variable keeps the last index, so the search answers \<open>-1\<close>
  only for an empty slice.
\<close>

lemma findChild_miss:
  "s \<notin> set cs \<Longrightarrow> findChild cs s i j = (if cs = [] then j else i + int (length cs) - 1)"
  by (induction cs arbitrary: i j) auto

lemma migrateSnapshot_found:
  assumes "old \<noteq> new" and "s \<in> set (childrenRefs (heap z old))"
  shows "fst (migrateSnapshot z old new s) = None"
    and "heap (snd (migrateSnapshot z old new s)) r =
           (heap z r)\<lparr>Name := (if r = s then Name (heap z new) @ ''@'' @ snd (splitSnapshotName (Name (heap z s)))
                                else Name (heap z r)),
                       childrenRefs := (if r = old then remove1 s (childrenRefs (heap z old))
                                        else if r = new then childrenRefs (heap z new) @ [s]
                                        else childrenRefs (heap z r))\<rparr>"
    and "allDatasets (snd (migrateSnapshot z old new s)) =
           ((allDatasets z)(Name (heap z new) @ ''@'' @ snd (splitSnapshotName (Name (heap z s))) \<mapsto> s))
             (Name (heap z s) := None)"
proof -
  let ?h = "heap z"
  let ?h1 = "?h(s := (?h s)\<lparr>Name := Name (?h new) @ ''@'' @ snd (splitSnapshotName (Name (?h s)))\<rparr>)"
  let ?h2 = "?h1(new := (?h1 new)\<lparr>childrenRefs := childrenRefs (?h1 new) @ [s]\<rparr>)"
  have cs: "childrenRefs (?h2 old) = childrenRefs (?h old)"
    using assms(1) by simp
  from findChild_found[OF assms(2), of 0 "- 1"]
  have j: "0 \<le> findChild (childrenRefs (?h old)) s 0 (- 1)"
    and rm: "take (nat (findChild (childrenRefs (?h old)) s 0 (- 1))) (childrenRefs (?h old))
           @ drop (nat (findChild (childrenRefs (?h old)) s 0 (- 1)) + 1) (childrenRefs (?h old))
           = remove1 s (childrenRefs (?h old))"
    by simp_all
  from j have nj: "\<not> findChild (childrenRefs (?h old)) s 0 (- 1) < 0" by simp
  show "fst (migrateSnapshot z old new s) = None"
    unfolding migrateSnapshot_def Let_def cs using nj by simp
  show "heap (snd (migrateSnapshot z old new s)) r =
           (heap z r)\<lparr>Name := (if r = s then Name (heap z new) @ ''@'' @ snd (splitSnapshotName (Name (heap z s)))
                                else Name (heap z r)),
                       childrenRefs := (if r = old then remove1 s (childrenRefs (heap z old))
                                        else if r = new then childrenRefs (heap z new) @ [s]
                                        else childrenRefs (heap z r))\<rparr>"
    unfolding migrateSnapshot_def Let_def cs using nj rm assms(1) by auto
  show "allDatasets (snd (migrateSnapshot z old new s)) =
           ((allDatasets z)(Name (heap z new) @ ''@'' @ snd (splitSnapshotName (Name (heap z s))) \<mapsto> s))
             (Name (heap z s) := None)"
    unfolding migrateSnapshot_def Let_def cs using nj assms(1) by auto
qed

lemma migrate_Cons_found:
  assumes "old \<noteq> new" and "s \<in> set (childrenRefs (heap z old))"
  shows "migrate z old new (s # rest) = migrate (snd (migrateSnapshot z old new s)) old new rest"
  using migrateSnapshot_found(1)[OF assms]
  by (cases "migrateSnapshot z old new s") simp

lemma migrate_children_old:
  assumes "old \<noteq> new" and "mset xs \<subseteq># mset (childrenRefs (heap z old))"
  shows "fst (migrate z old new xs) = None
       \<and> childrenRefs (heap (snd (migrate z old new xs)) old)
           = foldl (\<lambda>cs s. remove1 s cs) (childrenRefs (heap z old)) xs"
  using assms(2)
proof (induction xs arbitrary: z)
  case Nil
  then show ?case by simp
next
  case (Cons s rest)
  let ?z1 = "snd (migrateSnapshot z old new s)"
  from Cons.prems have s: "s \<in> set (childrenRefs (heap z old))"
    by (metis mset_subset_eqD list.set_intros(1) set_mset_mset)
  have c1: "childrenRefs (heap ?z1 old) = remove1 s (childrenRefs (heap z old))"
    by (simp add: migrateSnapshot_found(2)[OF assms(1) s])
  from Cons.prems have "mset rest \<subseteq># mset (childrenRefs (heap z old)) - {#s#}"
    by (simp add: insert_subset_eq_iff)
  then have "mset rest \<subseteq># mset (childrenRefs (heap ?z1 old))"
    by (simp add: c1)
  from Cons.IH[OF this] show ?case
    unfolding migrate_Cons_found[OF assms(1) s] by (simp add: c1)
qed

lemma foldl_remove1_filter:
  "\<forall>p \<in> set pre. \<not> P p \<Longrightarrow>
   foldl (\<lambda>cs s. remove1 s cs) (pre @ cs) (filter P cs) = pre @ filter (\<lambda>c. \<not> P c) cs"
proof (induction cs arbitrary: pre)
  case Nil
  then show ?case by simp
next
  case (Cons c cs)
  show ?case
  proof (cases "P c")
    case True
    with Cons.prems have "c \<notin> set pre" by auto
    then have "remove1 c (pre @ c # cs) = pre @ cs"
      by (simp add: remove1_append)
    with True Cons.IH[OF Cons.prems] show ?thesis by simp
  next
    case False
    with Cons.prems have "\<forall>p \<in> set (pre @ [c]). \<not> P p" by simp
    from Cons.IH[OF this] False show ?thesis by simp
  qed
qed

lemma registry_fold:
  fixes new_name old_name :: "ref \<Rightarrow> string"
  assumes "\<forall>a \<in> set xs. \<forall>b \<in> set xs. new_name a \<noteq> old_name b"
    and "\<forall>a \<in> set xs. \<forall>b \<in> set xs. new_name a = new_name b \<longrightarrow> a = b"
    and "s \<in> set xs"
  shows "foldl (\<lambda>m s. (m(new_name s \<mapsto> s))(old_name s := None)) m0 xs (new_name s) = Some s
       \<and> foldl (\<lambda>m s. (m(new_name s \<mapsto> s))(old_name s := None)) m0 xs (old_name s) = None"
  using assms
proof (induction xs rule: rev_induct)
  case Nil
  then show ?case by simp
next
  case (snoc x xs)
  show ?case
  proof (cases "s = x")
    case True
    with snoc.prems(1) show ?thesis by simp
  next
    case False
    with snoc.prems have s: "s \<in> set xs" by simp
    from snoc.prems have
      "\<forall>a \<in> set xs. \<forall>b \<in> set xs. new_name a \<noteq> old_name b"
      "\<forall>a \<in> set xs. \<forall>b \<in> set xs. new_name a = new_name b \<longrightarrow> a = b"
      by auto
    note IH = snoc.IH[OF this s]
    from snoc.prems(1) s have n1: "new_name s \<noteq> old_name x" "new_name x \<noteq> old_name s" by auto
    from snoc.prems(2) s False have n2: "new_name x \<noteq> new_name s" by auto
    from IH n1 n2 show ?thesis by simp
  qed
qed

lemma migrate_heap:
  assumes "old \<noteq> new" and "new \<notin> set xs" and "distinct xs"
    and "set xs \<subseteq> set (childrenRefs (heap z old))"
  shows "Name (heap (snd (migrate z old new xs)) r)
           = (if r \<in> set xs then Name (heap z new) @ ''@'' @ snd (splitSnapshotName (Name (heap z r)))
              else Name (heap z r))
       \<and> childrenRefs (heap (snd (migrate z old new xs)) new) = childrenRefs (heap z new) @ xs
       \<and> allDatasets (snd (migrate z old new xs))
           = foldl (\<lambda>m s. (m(Name (heap z new) @ ''@'' @ snd (splitSnapshotName (Name (heap z s))) \<mapsto> s))
                             (Name (heap z s) := None))
               (allDatasets z) xs"
  using assms(2-)
proof (induction xs arbitrary: z)
  case Nil
  then show ?case by simp
next
  case (Cons s rest)
  let ?z1 = "snd (migrateSnapshot z old new s)"
  from Cons.prems have s: "s \<in> set (childrenRefs (heap z old))" and sn: "s \<noteq> new"
    and sr: "s \<notin> set rest" by auto
  note step = migrateSnapshot_found[OF assms(1) s]
  have names: "Name (heap ?z1 r) = Name (heap z r)" if "r \<noteq> s" for r
    using that by (simp add: step(2))
  have nm_s: "Name (heap ?z1 s) = Name (heap z new) @ ''@'' @ snd (splitSnapshotName (Name (heap z s)))"
    by (simp add: step(2))
  have ch_new: "childrenRefs (heap ?z1 new) = childrenRefs (heap z new) @ [s]"
    using assms(1) by (simp add: step(2))
  have sub: "set rest \<subseteq> set (childrenRefs (heap ?z1 old))"
  proof
    fix x assume x: "x \<in> set rest"
    with sr have "x \<noteq> s" by auto
    with x Cons.prems(3) show "x \<in> set (childrenRefs (heap ?z1 old))"
      by (simp add: step(2) in_set_remove1 subset_iff)
  qed
  from Cons.prems have "new \<notin> set rest" "distinct rest" by auto
  note IH = Cons.IH[OF this sub]
  have fold_eq:
    "foldl (\<lambda>m s. (m(Name (heap ?z1 new) @ ''@'' @ snd (splitSnapshotName (Name (heap ?z1 s))) \<mapsto> s))
                      (Name (heap ?z1 s) := None)) m0 rest
     = foldl (\<lambda>m s. (m(Name (heap z new) @ ''@'' @ snd (splitSnapshotName (Name (heap z s))) \<mapsto> s))
                      (Name (heap z s) := None)) m0 rest" for m0
  proof (rule foldl_cong[OF refl refl])
    fix m x assume "x \<in> set rest"
    with sr have "x \<noteq> s" by auto
    then show "(m(Name (heap ?z1 new) @ ''@'' @ snd (splitSnapshotName (Name (heap ?z1 x))) \<mapsto> x))
                      (Name (heap ?z1 x) := None)
             = (m(Name (heap z new) @ ''@'' @ snd (splitSnapshotName (Name (heap z x))) \<mapsto> x))
                      (Name (heap z x) := None)"
      using sn by (simp only: names[OF \<open>x \<noteq> s\<close>] names[OF sn[symmetric]])
  qed
  have mc: "migrate z old new (s # rest) = migrate ?z1 old new rest"
    by (rule migrate_Cons_found[OF assms(1) s])
  show ?case
  proof (intro conjI)
    from IH have "Name (heap (snd (migrate ?z1 old new rest)) r)
        = (if r \<in> set rest then Name (heap ?z1 new) @ ''@'' @ snd (splitSnapshotName (Name (heap ?z1 r)))
              else Name (heap ?z1 r))" by blast
    then show "Name (heap (snd (migrate z old new (s # rest))) r)
           = (if r \<in> set (s # rest)
              then Name (heap z new) @ ''@'' @ snd (splitSnapshotName (Name (heap z r)))
              else Name (heap z r))"
      unfolding mc using sr nm_s names[of r] names[OF sn[symmetric]]
      by (cases "r = s") simp_all
  next
    from IH have "childrenRefs (heap (snd (migrate ?z1 old new rest)) new) = childrenRefs (heap ?z1 new) @ rest"
      by blast
    then show "childrenRefs (heap (snd (migrate z old new (s # rest))) new) = childrenRefs (heap z new) @ s # rest"
      unfolding mc by (simp add: ch_new)
  next
    from IH have "allDatasets (snd (migrate ?z1 old new rest))
       = foldl (\<lambda>m s. (m(Name (heap ?z1 new) @ ''@'' @ snd (splitSnapshotName (Name (heap ?z1 s))) \<mapsto> s))
                      (Name (heap ?z1 s) := None)) (allDatasets ?z1) rest" by blast
    then show "allDatasets (snd (migrate z old new (s # rest)))
           = foldl (\<lambda>m s. (m(Name (heap z new) @ ''@'' @ snd (splitSnapshotName (Name (heap z s))) \<mapsto> s))
                             (Name (heap z s) := None))
               (allDatasets z) (s # rest)"
      unfolding mc fold_eq by (simp add: step(3))
  qed
qed

lemma leaf_no_at: "CHR ''@'' \<notin> set (snd (splitSnapshotName n))"
proof (cases "LastIndex n CHR ''@''")
  case None
  then show ?thesis by (simp add: splitSnapshotName_def)
next
  case (Some i)
  from LastIndex_Some_split[OF Some] Some show ?thesis
    by (simp add: splitSnapshotName_def)
qed

lemma at_split_unique:
  assumes "CHR ''@'' \<notin> set x" and "CHR ''@'' \<notin> set y" and "a @ ''@'' @ x = b @ ''@'' @ y"
  shows "a = b \<and> x = y"
proof -
  from assms(1) have "LastIndex (a @ CHR ''@'' # x) CHR ''@'' = Some (length a)"
    by (rule LastIndex_append_last)
  moreover from assms(2) have "LastIndex (b @ CHR ''@'' # y) CHR ''@'' = Some (length b)"
    by (rule LastIndex_append_last)
  ultimately have "length a = length b" using assms(3) by simp
  with assms(3) show ?thesis by simp
qed

lemma inverseOrigin_unfold:
  assumes "findDatasetByName z (Origin (heap z new)) = Inr base"
    and "fst (migrate z old new (snapshotsToMigrate (heap z) base (childrenRefs (heap z old)))) = None"
  shows "inverseOrigin z old new =
           (None, (snd (migrate z old new (snapshotsToMigrate (heap z) base (childrenRefs (heap z old)))))
              \<lparr>heap := ((heap (snd (migrate z old new (snapshotsToMigrate (heap z) base (childrenRefs (heap z old))))))
                  (old := (heap (snd (migrate z old new (snapshotsToMigrate (heap z) base (childrenRefs (heap z old))))) old)
                     \<lparr>Origin := Name (heap (snd (migrate z old new (snapshotsToMigrate (heap z) base (childrenRefs (heap z old))))) base)\<rparr>))
                  (new := (((heap (snd (migrate z old new (snapshotsToMigrate (heap z) base (childrenRefs (heap z old))))))
                  (old := (heap (snd (migrate z old new (snapshotsToMigrate (heap z) base (childrenRefs (heap z old))))) old)
                     \<lparr>Origin := Name (heap (snd (migrate z old new (snapshotsToMigrate (heap z) base (childrenRefs (heap z old))))) base)\<rparr>)) new)
                     \<lparr>Origin := []\<rparr>)\<rparr>)"
  using assms
  by (cases "migrate z old new (snapshotsToMigrate (heap z) base (childrenRefs (heap z old)))")
     (simp add: inverseOrigin_def Let_def)

lemma inverseOrigin_fields:
  assumes "findDatasetByName z (Origin (heap z new)) = Inr base" and "old \<noteq> new"
  defines "m \<equiv> snd (migrate z old new (snapshotsToMigrate (heap z) base (childrenRefs (heap z old))))"
  defines "z' \<equiv> snd (inverseOrigin z old new)"
  shows "fst (inverseOrigin z old new) = None"
    and "Name (heap z' r) = Name (heap m r)"
    and "childrenRefs (heap z' r) = childrenRefs (heap m r)"
    and "allDatasets z' = allDatasets m"
    and "Origin (heap z' old) = Name (heap z' base)"
    and "Origin (heap z' new) = []"
proof -
  have "mset (snapshotsToMigrate (heap z) base (childrenRefs (heap z old))) \<subseteq># mset (childrenRefs (heap z old))"
    by (simp add: snapshotsToMigrate_filter)
  from migrate_children_old[OF assms(2) this]
  have ok: "fst (migrate z old new (snapshotsToMigrate (heap z) base (childrenRefs (heap z old)))) = None"
    by simp
  note u = inverseOrigin_unfold[OF assms(1) ok]
  show "fst (inverseOrigin z old new) = None" by (simp add: u)
  show "Name (heap z' r) = Name (heap m r)" by (simp add: u z'_def m_def)
  show "childrenRefs (heap z' r) = childrenRefs (heap m r)" by (simp add: u z'_def m_def)
  show "allDatasets z' = allDatasets m" by (simp add: u z'_def m_def)
  show "Origin (heap z' old) = Name (heap z' base)" using assms(2) by (simp add: u z'_def m_def)
  show "Origin (heap z' new) = []" by (simp add: u z'_def m_def)
qed

lemma inverseOrigin_children_old:
  assumes "findDatasetByName z (Origin (heap z new)) = Inr base" and "old \<noteq> new"
  shows "fst (inverseOrigin z old new) = None
       \<and> childrenRefs (heap (snd (inverseOrigin z old new)) old)
           = [c \<leftarrow> childrenRefs (heap z old).
                \<not> (IsSnapshot (heap z c) \<and> LastUsed (heap z c) \<le> LastUsed (heap z base))]"
proof -
  let ?P = "\<lambda>c. IsSnapshot (heap z c) \<and> LastUsed (heap z c) \<le> LastUsed (heap z base)"
  let ?cs = "childrenRefs (heap z old)"
  have sub: "mset (filter ?P ?cs) \<subseteq># mset ?cs" by simp
  from migrate_children_old[OF assms(2) sub]
  have "childrenRefs (heap (snd (migrate z old new (filter ?P ?cs))) old)
          = foldl (\<lambda>cs s. remove1 s cs) ?cs (filter ?P ?cs)" by simp
  also have "\<dots> = filter (\<lambda>c. \<not> ?P c) ?cs"
    using foldl_remove1_filter[of "[]" ?P ?cs] by simp
  finally show ?thesis
    using inverseOrigin_fields(1)[OF assms] inverseOrigin_fields(3)[OF assms, where r = old]
    by (simp add: snapshotsToMigrate_filter)
qed

lemma migrate_append:
  "fst (migrate z old new xs) = None \<Longrightarrow>
   migrate z old new (xs @ ys) = migrate (snd (migrate z old new xs)) old new ys"
proof (induction xs arbitrary: z)
  case Nil
  then show ?case by simp
next
  case (Cons s xs)
  obtain e z1 where r: "migrateSnapshot z old new s = (e, z1)" by (cases "migrateSnapshot z old new s")
  with Cons.prems have e: "e = None" by (cases e) simp_all
  with Cons.prems r have "fst (migrate z1 old new xs) = None" by simp
  from Cons.IH[OF this] r e show ?case by simp
qed







text \<open>
  C1. The base snapshot is resolved through the registry, \<open>oldOrigin\<close> and \<open>newOrigin\<close>
  are two datasets with different names, \<open>newOrigin\<close> is not a snapshot, and the
  children of \<open>oldOrigin\<close> are as the data model has them: each child once, no two with
  the same name, every snapshot named \<open>oldOrigin@leaf\<close>. Then \<open>inverseOrigin\<close> succeeds;
  it selects the snapshot children whose \<open>lastUsed\<close> is at most that of the base; each
  of them is renamed to \<open>newOrigin@leaf\<close> with its old leaf, is found in the registry
  under its new name and no longer under its old one, is appended to the children of
  \<open>newOrigin\<close> and removed from the children of \<open>oldOrigin\<close>; in the end the origin of
  \<open>oldOrigin\<close> is the name that the base snapshot now has and the origin of \<open>newOrigin\<close>
  is empty.
\<close>

theorem inverseOrigin_promotes:
  assumes base: "findDatasetByName z (Origin (heap z new)) = Inr base"
    and on: "old \<noteq> new"
    and nsnap: "\<not> IsSnapshot (heap z new)"
    and dist: "distinct (childrenRefs (heap z old))"
    and inj: "inj_on (\<lambda>c. Name (heap z c)) (set (childrenRefs (heap z old)))"
    and names: "\<forall>c \<in> set (childrenRefs (heap z old)). IsSnapshot (heap z c) \<longrightarrow>
                  Name (heap z c) = Name (heap z old) @ ''@'' @ snd (splitSnapshotName (Name (heap z c)))"
    and diff: "Name (heap z old) \<noteq> Name (heap z new)"
  defines "z' \<equiv> snd (inverseOrigin z old new)"
  shows "fst (inverseOrigin z old new) = None
       \<and> snapshotsToMigrate (heap z) base (childrenRefs (heap z old)) = selected z old base
       \<and> (\<forall>s \<in> set (selected z old base).
            Name (heap z' s) = Name (heap z new) @ ''@'' @ snd (splitSnapshotName (Name (heap z s)))
          \<and> allDatasets z' (Name (heap z new) @ ''@'' @ snd (splitSnapshotName (Name (heap z s)))) = Some s
          \<and> allDatasets z' (Name (heap z s)) = None)
       \<and> childrenRefs (heap z' new) = childrenRefs (heap z new) @ selected z old base
       \<and> childrenRefs (heap z' old) = [c \<leftarrow> childrenRefs (heap z old). c \<notin> set (selected z old base)]
       \<and> Origin (heap z' old) = Name (heap z' base)
       \<and> Origin (heap z' new) = []"
proof -
  let ?xs = "selected z old base"
  let ?cs = "childrenRefs (heap z old)"
  let ?new_name = "\<lambda>s. Name (heap z new) @ ''@'' @ snd (splitSnapshotName (Name (heap z s)))"
  let ?old_name = "\<lambda>s. Name (heap z s)"
  have sel: "snapshotsToMigrate (heap z) base ?cs = ?xs"
    by (simp add: snapshotsToMigrate_filter selected_def)
  have xs_sub: "set ?xs \<subseteq> set ?cs" and xs_dist: "distinct ?xs"
    using dist by (auto simp: selected_def)
  have xs_snap: "IsSnapshot (heap z s)" if "s \<in> set ?xs" for s
    using that by (simp add: selected_def)
  have new_notin: "new \<notin> set ?xs" using nsnap xs_snap by blast
  note f = inverseOrigin_fields[OF base on, unfolded sel, folded z'_def]
  note m = migrate_heap[OF on new_notin xs_dist xs_sub]
  have old_names: "?old_name s = Name (heap z old) @ ''@'' @ snd (splitSnapshotName (Name (heap z s)))"
    if "s \<in> set ?xs" for s
    using that names xs_sub xs_snap by blast
  have h1: "\<forall>a \<in> set ?xs. \<forall>b \<in> set ?xs. ?new_name a \<noteq> ?old_name b"
  proof (intro ballI notI)
    fix a b assume a: "a \<in> set ?xs" and b: "b \<in> set ?xs" and eq: "?new_name a = ?old_name b"
    from eq old_names[OF b]
    have "Name (heap z new) @ ''@'' @ snd (splitSnapshotName (Name (heap z a)))
        = Name (heap z old) @ ''@'' @ snd (splitSnapshotName (Name (heap z b)))" by simp
    from at_split_unique[OF leaf_no_at leaf_no_at this] diff show False by simp
  qed
  have h2: "\<forall>a \<in> set ?xs. \<forall>b \<in> set ?xs. ?new_name a = ?new_name b \<longrightarrow> a = b"
  proof (intro ballI impI)
    fix a b assume a: "a \<in> set ?xs" and b: "b \<in> set ?xs" and eq: "?new_name a = ?new_name b"
    then have "snd (splitSnapshotName (Name (heap z a))) = snd (splitSnapshotName (Name (heap z b)))"
      by simp
    with old_names[OF a] old_names[OF b] have "Name (heap z a) = Name (heap z b)" by simp
    with inj a b xs_sub show "a = b" by (auto dest: inj_onD)
  qed
  have reg: "allDatasets z' (?new_name s) = Some s \<and> allDatasets z' (?old_name s) = None"
    if "s \<in> set ?xs" for s
    using registry_fold[of ?xs ?new_name ?old_name s "allDatasets z", OF h1 h2 that] m f(4)
    by simp
  have nm: "Name (heap z' s) = ?new_name s" if "s \<in> set ?xs" for s
    using that m[of s] f(2)[of s] by simp
  have ch_new: "childrenRefs (heap z' new) = childrenRefs (heap z new) @ ?xs"
    using m[of new] f(3)[of new] by simp
  have "childrenRefs (heap z' old)
          = [c \<leftarrow> ?cs. \<not> (IsSnapshot (heap z c) \<and> LastUsed (heap z c) \<le> LastUsed (heap z base))]"
    using inverseOrigin_children_old[OF base on] by (simp add: z'_def)
  also have "\<dots> = [c \<leftarrow> ?cs. c \<notin> set ?xs]"
    by (rule filter_cong) (auto simp: selected_def)
  finally have ch_old: "childrenRefs (heap z' old) = [c \<leftarrow> ?cs. c \<notin> set ?xs]" .
  from f(1) sel reg nm ch_new ch_old f(5) f(6) show ?thesis by simp
qed

theorem inverseOrigin_promotes_witness:
  "fst (inverseOrigin promotionExample 2 3) = None
   \<and> selected promotionExample 2 5 = [4, 5]
   \<and> Name (heap (snd (inverseOrigin promotionExample 2 3)) 4) = ''clone@1''
   \<and> Name (heap (snd (inverseOrigin promotionExample 2 3)) 5) = ''clone@2''
   \<and> allDatasets (snd (inverseOrigin promotionExample 2 3)) ''clone@1'' = Some 4
   \<and> allDatasets (snd (inverseOrigin promotionExample 2 3)) ''clone@2'' = Some 5
   \<and> allDatasets (snd (inverseOrigin promotionExample 2 3)) ''base@1'' = None
   \<and> allDatasets (snd (inverseOrigin promotionExample 2 3)) ''base@2'' = None
   \<and> childrenRefs (heap (snd (inverseOrigin promotionExample 2 3)) 3) = [4, 5]
   \<and> childrenRefs (heap (snd (inverseOrigin promotionExample 2 3)) 2) = []
   \<and> Origin (heap (snd (inverseOrigin promotionExample 2 3)) 2) = ''clone@2''
   \<and> Origin (heap (snd (inverseOrigin promotionExample 2 3)) 3) = []"
proof -
  let ?z = promotionExample
  have b: "findDatasetByName ?z (Origin (heap ?z 3)) = Inr 5"
    by (simp add: promotionExample_def findDatasetByName_def objectAt_def)
  have on: "(2::nat) \<noteq> 3" by simp
  have nsnap: "\<not> IsSnapshot (heap ?z 3)"
    by (simp add: promotionExample_def objectAt_def)
  have cs: "childrenRefs (heap ?z 2) = [4, 5]"
    by (simp add: promotionExample_def objectAt_def)
  have c3: "childrenRefs (heap ?z 3) = []"
    by (simp add: promotionExample_def objectAt_def)
  have dist: "distinct (childrenRefs (heap ?z 2))" by (simp add: cs)
  have n2: "Name (heap ?z 4) = ''base@1''" and n3: "Name (heap ?z 5) = ''base@2''"
    and n0: "Name (heap ?z 2) = ''base''" and n1: "Name (heap ?z 3) = ''clone''"
    by (simp_all add: promotionExample_def objectAt_def)
  have l2: "snd (splitSnapshotName ''base@1'') = ''1''" and l3: "snd (splitSnapshotName ''base@2'') = ''2''"
    by (simp_all add: splitSnapshotName_def)
  have inj: "inj_on (\<lambda>c. Name (heap ?z c)) (set (childrenRefs (heap ?z 2)))"
    by (simp add: cs n2 n3)
  have names: "\<forall>c \<in> set (childrenRefs (heap ?z 2)). IsSnapshot (heap ?z c) \<longrightarrow>
                  Name (heap ?z c) = Name (heap ?z 2) @ ''@'' @ snd (splitSnapshotName (Name (heap ?z c)))"
    by (simp add: cs n0 n2 n3 l2 l3)
  have diff: "Name (heap ?z 2) \<noteq> Name (heap ?z 3)" by (simp add: n0 n1)
  have sel: "selected ?z 2 5 = [4, 5]"
    by (simp add: selected_def promotionExample_def objectAt_def)
  from inverseOrigin_promotes[OF b on nsnap dist inj names diff]
  show ?thesis
    by (simp add: sel cs c3 n0 n1 n2 n3 l2 l3)
qed

section \<open>Paths\<close>

lemma splitOn_not_Nil: "splitOn c s \<noteq> []"
  by (induction s) (auto split: list.splits)

lemma splitOn_append: "splitOn c (a @ c # b) = splitOn c a @ splitOn c b"
proof (induction a)
  case Nil
  then show ?case by simp
next
  case (Cons x a)
  then show ?case
    using splitOn_not_Nil[of c a] by (auto split: list.splits)
qed

lemma splitOn_elements: "e \<in> set (splitOn c s) \<Longrightarrow> c \<notin> set e"
proof (induction s arbitrary: e)
  case Nil
  then show ?case by simp
next
  case (Cons x s)
  then show ?case
    by (auto split: if_splits list.splits)
qed

lemma splitOn_no_sep: "c \<notin> set e \<Longrightarrow> splitOn c e = [e]"
  by (induction e) auto

lemma splitOn_joinWith:
  "N \<noteq> [] \<Longrightarrow> \<forall>e \<in> set N. c \<notin> set e \<Longrightarrow> splitOn c (joinWith [c] N) = N"
proof (induction N)
  case Nil
  then show ?case by simp
next
  case (Cons e N)
  show ?case
  proof (cases N)
    case Nil
    with Cons.prems show ?thesis by (simp add: splitOn_no_sep)
  next
    case (Cons a b)
    with Cons.IH Cons.prems have "splitOn c (joinWith [c] N) = N" by simp
    with Cons Cons.prems show ?thesis
      using splitOn_append[of c e "joinWith [c] N"] by (simp add: splitOn_no_sep)
  qed
qed

lemma joinWith_append:
  "xs \<noteq> [] \<Longrightarrow> ys \<noteq> [] \<Longrightarrow> joinWith sep (xs @ ys) = joinWith sep xs @ sep @ joinWith sep ys"
  by (induction sep xs rule: joinWith.induct) (auto simp: neq_Nil_conv)

lemma cleanStep_plain: "plain e \<Longrightarrow> cleanStep rooted out e = out @ [e]"
  by (simp add: cleanStep_def plain_def)

lemma foldl_cleanStep_plain:
  "\<forall>e \<in> set N. plain e \<Longrightarrow> foldl (cleanStep rooted) out N = out @ N"
  by (induction N arbitrary: out) (simp_all add: cleanStep_plain)

lemma foldl_cleanStep_no_dotdot:
  "''..'' \<notin> set es \<Longrightarrow>
   foldl (cleanStep rooted) out es = out @ filter (\<lambda>e. e \<noteq> [] \<and> e \<noteq> ''.'') es"
  by (induction es arbitrary: out) (auto simp: cleanStep_def)

lemma Clean_finish:
  "p \<noteq> [] \<Longrightarrow>
   Clean p = finish (hd p = CHR ''/'') (foldl (cleanStep (hd p = CHR ''/'')) [] (splitOn CHR ''/'' p))"
  by (simp add: Clean_def finish_def Let_def)

lemma Join_finish:
  assumes "v \<noteq> []"
  shows "Join [v, x] = finish (hd v = CHR ''/'')
           (foldl (cleanStep (hd v = CHR ''/''))
              (foldl (cleanStep (hd v = CHR ''/'')) [] (splitOn CHR ''/'' v)) (splitOn CHR ''/'' x))"
proof -
  from assms have "Join [v, x] = Clean (v @ CHR ''/'' # x)" by (simp add: Join_def)
  also have "\<dots> = finish (hd v = CHR ''/'')
      (foldl (cleanStep (hd v = CHR ''/'')) [] (splitOn CHR ''/'' (v @ CHR ''/'' # x)))"
    using assms Clean_finish[of "v @ CHR ''/'' # x"] by simp
  finally show ?thesis by (simp add: splitOn_append)
qed

text \<open>
  For a cleaned path \<open>v\<close> other than \<open>.\<close> and a suffix without \<open>..\<close>, joining \<open>v\<close>
  with what is left of \<open>Join [v, sfx]\<close> after \<open>v\<close> gives \<open>Join [v, sfx]\<close> again.
\<close>

lemma Join_TrimPrefix_stable:
  assumes clean: "Clean v = v" and nodot: "v \<noteq> ''.''"
    and nodd: "''..'' \<notin> set (splitOn CHR ''/'' sfx)"
  shows "Join [v, TrimPrefix (Join [v, sfx]) v] = Join [v, sfx]"
proof -
  from clean have v: "v \<noteq> []" by (auto simp: Clean_def)
  define rt where "rt = (hd v = CHR ''/'')"
  define out where "out = foldl (cleanStep rt) [] (splitOn CHR ''/'' v)"
  define N where "N = filter (\<lambda>e. e \<noteq> [] \<and> e \<noteq> ''.'') (splitOn CHR ''/'' sfx)"
  have J: "Join [v, x] = finish rt (foldl (cleanStep rt) out (splitOn CHR ''/'' x))" for x
    unfolding rt_def out_def by (rule Join_finish[OF v])
  have v_eq: "v = finish rt out"
    using Clean_finish[OF v] clean by (simp add: rt_def out_def)
  have N_plain: "\<forall>e \<in> set N. plain e"
    using nodd by (auto simp: N_def plain_def dest: splitOn_elements)
  have r: "Join [v, sfx] = finish rt (out @ N)"
    unfolding J N_def by (simp only: foldl_cleanStep_no_dotdot[OF nodd])
  have again: "Join [v, x] = Join [v, sfx]"
    if "foldl (cleanStep rt) out (splitOn CHR ''/'' x) = out @ N" for x
  proof -
    have "Join [v, x] = finish rt (out @ N)" by (simp only: J that)
    then show ?thesis by (simp only: r)
  qed
  show ?thesis
  proof (cases "N = []")
    case True
    then have "Join [v, sfx] = v" using r v_eq by simp
    moreover have "Join [v, []] = Join [v, sfx]"
      by (rule again) (simp add: True cleanStep_def)
    ultimately show ?thesis by (simp add: TrimPrefix_def)
  next
    case N: False
    have splitN: "splitOn CHR ''/'' (joinWith ''/'' N) = N"
      using N N_plain by (intro splitOn_joinWith) (auto simp: plain_def)
    show ?thesis
    proof (cases "out = []")
      case True
      with v_eq nodot have v1: "v = ''/''" and rt: "rt"
        by (auto simp: finish_def split: if_splits)
      have r1: "Join [v, sfx] = CHR ''/'' # joinWith ''/'' N"
        using r True rt by (simp add: finish_def)
      have t: "TrimPrefix (Join [v, sfx]) v = joinWith ''/'' N"
        unfolding r1 by (simp add: v1 TrimPrefix_def)
      have "foldl (cleanStep rt) out (splitOn CHR ''/'' (joinWith ''/'' N)) = out @ N"
        unfolding splitN using N_plain by (rule foldl_cleanStep_plain)
      from again[OF this] show ?thesis by (simp only: t)
    next
      case False
      have "finish rt (out @ N) = finish rt out @ CHR ''/'' # joinWith ''/'' N"
        using joinWith_append[OF False N, of "''/''"] False by (simp add: finish_def)
      then have r2: "Join [v, sfx] = v @ CHR ''/'' # joinWith ''/'' N"
        using r v_eq by simp
      have t: "TrimPrefix (Join [v, sfx]) v = CHR ''/'' # joinWith ''/'' N"
        unfolding r2 by (simp add: TrimPrefix_def)
      have "splitOn CHR ''/'' (CHR ''/'' # joinWith ''/'' N) = [] # N"
        using splitN by simp
      then have "foldl (cleanStep rt) out (splitOn CHR ''/'' (CHR ''/'' # joinWith ''/'' N))
               = foldl (cleanStep rt) out N"
        by (simp add: cleanStep_def)
      also have "\<dots> = out @ N" using N_plain by (rule foldl_cleanStep_plain)
      finally show ?thesis using again by (simp only: t)
    qed
  qed
qed

section \<open>Decimal numbers\<close>

lemma digit_cases: "k < 10 \<Longrightarrow> k = 0 \<or> k = 1 \<or> k = 2 \<or> k = 3 \<or> k = 4 \<or> k = 5 \<or> k = 6 \<or> k = 7 \<or> k = 8 \<or> k = (9::nat)"
  by arith

lemma digitChar_props:
  assumes "k < 10"
  shows "isDigit (digitChar k)" and "digitVal (digitChar k) = k"
    and "digitChar k \<noteq> CHR ''-''" and "digitChar k \<noteq> CHR ''+''"
  using digit_cases[OF assms]
  by (auto simp: digitChar_def isDigit_def digitVal_def)

lemma parseDigits_snoc: "parseDigits n (s @ [ch]) = parseDigits n s * 10 + digitVal ch"
  by (induction s arbitrary: n) simp_all

lemma natDigits_props:
  "natDigits n \<noteq> [] \<and> list_all isDigit (natDigits n) \<and> parseDigits 0 (natDigits n) = n
   \<and> hd (natDigits n) \<noteq> CHR ''-'' \<and> hd (natDigits n) \<noteq> CHR ''+''"
proof (induction n rule: natDigits.induct)
  case (1 n)
  show ?case
  proof (cases "n < 10")
    case True
    then show ?thesis
      by (subst (1 2 3 4 5) natDigits.simps) (simp add: digitChar_props)
  next
    case False
    then have m: "n mod 10 < 10" by simp
    from "1.IH"[OF False] False m show ?thesis
      by (subst (1 2 3 4 5) natDigits.simps)
         (simp add: digitChar_props parseDigits_snoc del: natDigits.simps)
  qed
qed

lemma Atoi_Itoa:
  assumes "- (2 ^ 63) \<le> i" and "i \<le> 2 ^ 63 - 1"
  shows "Atoi (Itoa i) = Inr i"
proof (cases "i < 0")
  case True
  with assms natDigits_props[of "nat (- i)"] show ?thesis
    by (simp add: Atoi_def Itoa_def Let_def del: natDigits.simps)
next
  case False
  with assms natDigits_props[of "nat i"] show ?thesis
    by (simp add: Atoi_def Itoa_def Let_def del: natDigits.simps)
qed

lemma Atoi_range: "Atoi s = Inr i \<Longrightarrow> - (2 ^ 63) \<le> i \<and> i \<le> 2 ^ 63 - 1"
  by (auto simp: Atoi_def Let_def split: if_splits)

lemma Atoi_Itoa_again: "Atoi s = Inr i \<Longrightarrow> Atoi (Itoa i) = Inr i"
  using Atoi_range[of s i] Atoi_Itoa[of i] by simp

section \<open>Setting a property twice\<close>

lemma refreshChild_again:
  assumes "refreshChild n v old c = Inr c'" and "n \<noteq> MountPointProp"
  shows "refreshChild n v old2 c' = Inr c'"
  using assms
  by (cases n) (auto simp: refreshChild_def Let_def empty_def split: sum.splits if_splits)

lemma refreshChild_again_mountpoint:
  assumes "refreshChild MountPointProp v old c = Inr c'"
    and "Join [v, TrimPrefix (Join [v, TrimPrefix (Mountpoint c) old]) v]
           = Join [v, TrimPrefix (Mountpoint c) old]"
  shows "refreshChild MountPointProp v v c' = Inr c'"
  using assms
  by (auto simp: refreshChild_def Let_def empty_def split: sum.splits if_splits)

lemma inherits_refreshChild:
  assumes "refreshChild n v old c = Inr c'" and "inherits n c"
  shows "inherits n c'"
  using assms
  by (cases n) (auto simp: refreshChild_def inherits_def Let_def empty_def split: sum.splits if_splits)

lemma refreshInheritedChildren_again:
  assumes "refreshInheritedChildren n v old cs = Inr cs'"
    and "n = MountPointProp \<longrightarrow> old2 = v \<and> Clean v = v \<and> v \<noteq> ''.''
           \<and> (\<forall>c \<in> set (concat (map subtree cs)).
                 ''..'' \<notin> set (splitOn CHR ''/'' (TrimPrefix (Mountpoint (self c)) old)))"
  shows "refreshInheritedChildren n v old2 cs' = Inr cs'"
  using assms
proof (induction n v old cs arbitrary: cs' rule: refreshInheritedChildren.induct)
  case (1 name "value" oldMountPoint)
  then show ?case by simp
next
  case (2 name "value" oldMountPoint c gcs cs)
  have cond_cs: "name = MountPointProp \<longrightarrow> old2 = value \<and> Clean value = value \<and> value \<noteq> ''.''
           \<and> (\<forall>c \<in> set (concat (map subtree cs)).
                 ''..'' \<notin> set (splitOn CHR ''/'' (TrimPrefix (Mountpoint (self c)) oldMountPoint)))"
    and cond_gcs: "name = MountPointProp \<longrightarrow> old2 = value \<and> Clean value = value \<and> value \<noteq> ''.''
           \<and> (\<forall>c \<in> set (concat (map subtree gcs)).
                 ''..'' \<notin> set (splitOn CHR ''/'' (TrimPrefix (Mountpoint (self c)) oldMountPoint)))"
    and cond_c: "name = MountPointProp \<longrightarrow> old2 = value \<and> Clean value = value \<and> value \<noteq> ''.''
           \<and> ''..'' \<notin> set (splitOn CHR ''/'' (TrimPrefix (Mountpoint c) oldMountPoint))"
    using "2.prems"(2) by auto
  show ?case
  proof (cases "inherits name c")
    case False
    with "2.prems"(1) obtain r where r: "refreshInheritedChildren name value oldMountPoint cs = Inr r"
      and cs': "cs' = Dataset c gcs # r"
      by (auto split: sum.splits)
    from "2.IH"(1)[OF False r cond_cs] False show ?thesis
      unfolding cs' by simp
  next
    case True
    with "2.prems"(1) obtain c' g r where c': "refreshChild name value oldMountPoint c = Inr c'"
      and g: "refreshInheritedChildren name value oldMountPoint gcs = Inr g"
      and r: "refreshInheritedChildren name value oldMountPoint cs = Inr r"
      and cs': "cs' = Dataset c' g # r"
      by (auto split: sum.splits)
    have T: "\<not> \<not> inherits name c" using True by simp
    have i': "inherits name c'" using c' True by (rule inherits_refreshChild)
    have c'': "refreshChild name value old2 c' = Inr c'"
    proof (cases "name = MountPointProp")
      case False
      with c' show ?thesis by (rule refreshChild_again)
    next
      case mp: True
      with cond_c have o: "old2 = value" and cl: "Clean value = value" and nd': "value \<noteq> ''.''"
        and nd: "''..'' \<notin> set (splitOn CHR ''/'' (TrimPrefix (Mountpoint c) oldMountPoint))"
        by auto
      from refreshChild_again_mountpoint[OF c'[unfolded mp] Join_TrimPrefix_stable[OF cl nd' nd]]
      show ?thesis by (simp add: mp o)
    qed
    from "2.IH"(2)[OF T c' g cond_gcs] "2.IH"(3)[OF T c' g r cond_cs] i' c''
    show ?thesis unfolding cs' by simp
  qed
qed

lemma setProperty_success:
  assumes "setProperty D P v s = (None, D1)"
  obtains np up destV destS d1 old cs' where
    "stringToProp (self D) P = Inr (np, up, destV, destS)"
    "writeProperty (self D) np up v s = None"
    "refreshLocal (self D) P v destV = Inr (d1, old)"
    "refreshInheritedChildren P v old (children D) = Inr cs'"
    "D1 = Dataset (assignSrc destS s d1) cs'"
  using assms
  by (auto simp: setProperty_def Let_def split: sum.splits option.splits prod.splits)

lemma root_again:
  assumes "stringToProp d P = Inr (np, up, destV, destS)"
    and "writeProperty d np up v s = None"
    and "refreshLocal d P v destV = Inr (d1, old)"
  shows "\<exists>destV' d1'. stringToProp (assignSrc destS s d1) P = Inr (np, up, destV', destS)
           \<and> writeProperty (assignSrc destS s d1) np up v s = None
           \<and> refreshLocal (assignSrc destS s d1) P v destV'
               = Inr (d1', if P = MountPointProp then v else [])
           \<and> assignSrc destS s d1' = assignSrc destS s d1
           \<and> old = (if P = MountPointProp then Mountpoint d else [])"
proof (cases "P = LastUsedProp")
  case False
  with assms show ?thesis
    by (cases P) (auto simp: writeProperty_def refreshLocal_def empty_def split: if_splits)
next
  case True
  with assms obtain n where n: "Atoi (if v = [] then ''0'' else Itoa (LastUsed d)) = Inr n"
    and d1: "d1 = d\<lparr>LastUsed := n\<rparr>" and old: "old = []"
    and ptrs: "np = empty" "up = LastUsedProp" "destS = PtrSrcLastUsed"
    by (cases "v = []") (auto simp: refreshLocal_def split: sum.splits)
  have "Atoi (if v = [] then ''0'' else Itoa n) = Inr n"
    using n Atoi_Itoa_again[of "Itoa (LastUsed d)" n] by (auto split: if_splits)
  with assms(2) True show ?thesis
    by (cases "v = []") (simp_all add: d1 old ptrs writeProperty_def refreshLocal_def)
qed

text \<open>
  C8, as stated: a second call with the same value changes nothing. For mountpoint it
  can: with the value \<open>/a//b\<close> the child A is at \<open>/a/b/A\<close> after one call and at
  \<open>/a/b/a/b/A\<close> after two.
\<close>

theorem setProperty_twice_differs:
  "fst (setProperty chainRoot MountPointProp ''/a//b'' ''local'') = None
   \<and> fst (setProperty (snd (setProperty chainRoot MountPointProp ''/a//b'' ''local''))
           MountPointProp ''/a//b'' ''local'') = None
   \<and> Mountpoint (self (children (snd (setProperty chainRoot MountPointProp ''/a//b'' ''local'')) ! 0))
       = ''/a/b/A''
   \<and> Mountpoint (self (children (snd (setProperty
         (snd (setProperty chainRoot MountPointProp ''/a//b'' ''local''))
           MountPointProp ''/a//b'' ''local'')) ! 0))
       = ''/a/b/a/b/A''"
  by (simp add: setProperty_def chainRoot_def chainA_def chainB_def chainC_def filesystemAt_def
      newDataset_def writeProperty_def exampleHandle_def filesystemHandle_def empty_def
      refreshLocal_def inherits_def refreshChild_def Join_def Clean_def cleanStep_def
      TrimPrefix_def Let_def)

text \<open>
  C8, amended. When \<open>setProperty\<close> succeeds, a second call with the same property,
  value and source succeeds and leaves the dataset and everything below it as the first
  call left them, for every property other than mountpoint; and for mountpoint when the
  value is a cleaned path other than \<open>.\<close> and no dataset below has a \<open>..\<close> element in what is
  left of its mountpoint after the old mountpoint of the dataset. \<open>setProperty\<close> does
  not touch the registry.
\<close>

theorem setProperty_twice:
  assumes "setProperty D P v s = (None, D1)"
    and "P = MountPointProp \<longrightarrow> Clean v = v \<and> v \<noteq> ''.''
           \<and> (\<forall>c \<in> set (concat (map subtree (children D))).
                 ''..'' \<notin> set (splitOn CHR ''/'' (TrimPrefix (Mountpoint (self c)) (Mountpoint (self D)))))"
  shows "setProperty D1 P v s = (None, D1)"
proof -
  from assms(1) obtain np up destV destS d1 old cs' where
    p: "stringToProp (self D) P = Inr (np, up, destV, destS)"
    and w: "writeProperty (self D) np up v s = None"
    and l: "refreshLocal (self D) P v destV = Inr (d1, old)"
    and c: "refreshInheritedChildren P v old (children D) = Inr cs'"
    and D1: "D1 = Dataset (assignSrc destS s d1) cs'"
    by (rule setProperty_success)
  from root_again[OF p w l] obtain destV' d1' where
    p': "stringToProp (assignSrc destS s d1) P = Inr (np, up, destV', destS)"
    and w': "writeProperty (assignSrc destS s d1) np up v s = None"
    and l': "refreshLocal (assignSrc destS s d1) P v destV' = Inr (d1', if P = MountPointProp then v else [])"
    and e: "assignSrc destS s d1' = assignSrc destS s d1"
    and old: "old = (if P = MountPointProp then Mountpoint (self D) else [])"
    by blast
  have "refreshInheritedChildren P v (if P = MountPointProp then v else []) cs' = Inr cs'"
    using c assms(2) by (intro refreshInheritedChildren_again[of P v old "children D"]) (auto simp: old)
  with p' w' l' e show ?thesis
    by (simp add: setProperty_def D1)
qed

theorem setProperty_twice_witness:
  "fst (setProperty chainRoot MountPointProp ''/new'' ''local'') = None
   \<and> setProperty (snd (setProperty chainRoot MountPointProp ''/new'' ''local'')) MountPointProp ''/new'' ''local''
       = (None, snd (setProperty chainRoot MountPointProp ''/new'' ''local''))"
proof -
  have ok: "fst (setProperty chainRoot MountPointProp ''/new'' ''local'') = None"
    by (simp add: setProperty_def chainRoot_def chainA_def chainB_def chainC_def filesystemAt_def
      newDataset_def writeProperty_def exampleHandle_def filesystemHandle_def empty_def
      refreshLocal_def inherits_def refreshChild_def Let_def)
  then have eq: "setProperty chainRoot MountPointProp ''/new'' ''local''
      = (None, snd (setProperty chainRoot MountPointProp ''/new'' ''local''))"
    by (metis prod.collapse)
  have h: "MountPointProp = MountPointProp \<longrightarrow> Clean ''/new'' = ''/new'' \<and> ''/new'' \<noteq> ''.''
           \<and> (\<forall>c \<in> set (concat (map subtree (children chainRoot))).
                 ''..'' \<notin> set (splitOn CHR ''/'' (TrimPrefix (Mountpoint (self c)) (Mountpoint (self chainRoot)))))"
    by (simp add: Clean_def cleanStep_def chainRoot_def chainA_def chainB_def chainC_def
          filesystemAt_def newDataset_def TrimPrefix_def)
  from setProperty_twice[OF eq h] ok show ?thesis by simp
qed

end
